theory Spec2Isabelle
  imports Main "HOL-Library.Sublist"
begin

section \<open>Python strings\<close>

text \<open>
  A Python \<open>str\<close> is a sequence of code points. The model keeps the code points below 256
  (Latin-1, which holds every letter of the Spanish vocabulary of \<open>proyecto.py\<close>): one
  \<open>char\<close> is one code point, so \<open>length\<close>, slicing and \<open>in\<close> count what Python counts.
  The character classes below are those of CPython on that range.
\<close>

type_synonym pystr = string

definition NL :: char where
  "NL = CHR 0x0A"

text \<open>\<open>str.isspace\<close> and the regular expression class \<open>\s\<close>.\<close>

definition is_space :: "char \<Rightarrow> bool" where
  "is_space c = (c \<in> set [CHR 0x09, CHR 0x0A, CHR 0x0B, CHR 0x0C, CHR 0x0D, CHR 0x1C,
                           CHR 0x1D, CHR 0x1E, CHR 0x1F, CHR 0x20, CHR 0x85, CHR 0xA0])"

text \<open>The regular expression class \<open>\d\<close>.\<close>

definition is_digit :: "char \<Rightarrow> bool" where
  "is_digit c = (c \<in> set ''0123456789'')"

text \<open>The regular expression class \<open>\w\<close>: alphanumeric code points and the underscore.\<close>

definition is_word :: "char \<Rightarrow> bool" where
  "is_word c = (let n = (of_char c :: nat) in
     (48 \<le> n \<and> n \<le> 57) \<or> (65 \<le> n \<and> n \<le> 90) \<or> n = 95 \<or> (97 \<le> n \<and> n \<le> 122) \<or>
     n \<in> set [170, 178, 179, 181, 185, 186, 188, 189, 190] \<or>
     (192 \<le> n \<and> n \<le> 214) \<or> (216 \<le> n \<and> n \<le> 246) \<or> 248 \<le> n)"

text \<open>\<open>str.lower\<close>, one code point at a time.\<close>

definition lower_char :: "char \<Rightarrow> char" where
  "lower_char c = (let n = (of_char c :: nat) in
     if (65 \<le> n \<and> n \<le> 90) \<or> (192 \<le> n \<and> n \<le> 222 \<and> n \<noteq> 215) then char_of (n + 32) else c)"

definition lower :: "pystr \<Rightarrow> pystr" where
  "lower s = map lower_char s"

text \<open>\<open>str.strip()\<close>: whitespace removed at both ends.\<close>

definition strip :: "pystr \<Rightarrow> pystr" where
  "strip s = rev (dropWhile is_space (rev (dropWhile is_space s)))"

text \<open>\<open>w in t\<close> and \<open>t.startswith(w)\<close>.\<close>

definition py_in :: "pystr \<Rightarrow> pystr \<Rightarrow> bool" where
  "py_in w t = sublist w t"

definition startswith :: "pystr \<Rightarrow> pystr \<Rightarrow> bool" where
  "startswith t w = prefix w t"

text \<open>\<open>int(s)\<close> on a string of decimal digits, the only argument the program gives it
  after a \<open>\d\<close> group matched.\<close>

definition digit_val :: "char \<Rightarrow> nat" where
  "digit_val c = of_char c - 48"

definition py_int :: "pystr \<Rightarrow> nat" where
  "py_int s = foldl (\<lambda>a c. 10 * a + digit_val c) 0 s"

text \<open>Truthiness of an optional string and of an optional integer: \<open>None\<close>, \<open>''\<close> and
  \<open>0\<close> are false.\<close>

definition truthy_str :: "pystr option \<Rightarrow> bool" where
  "truthy_str x = (case x of None \<Rightarrow> False | Some s \<Rightarrow> s \<noteq> [])"

definition truthy_int :: "int option \<Rightarrow> bool" where
  "truthy_int x = (case x of None \<Rightarrow> False | Some n \<Rightarrow> n \<noteq> 0)"

section \<open>Regular expressions of the program\<close>

text \<open>
  \<open>re.search\<close> tries the pattern at every start position from the left and, at one
  position, explores the alternatives in order and the repetitions greedily, backing off one
  item at a time. \<open>first_some\<close> is the ordered choice, \<open>rep_greedy\<close> a greedy bounded
  repetition of a character class followed by the rest of the pattern, \<open>re_search\<close> the
  scan over the start positions; the character before the position is kept for \<open>\b\<close>.
\<close>

fun first_some :: "('a \<Rightarrow> 'b option) \<Rightarrow> 'a list \<Rightarrow> 'b option" where
  "first_some f [] = None"
| "first_some f (x # xs) = (case f x of Some r \<Rightarrow> Some r | None \<Rightarrow> first_some f xs)"

definition rep_greedy ::
  "(char \<Rightarrow> bool) \<Rightarrow> nat \<Rightarrow> nat option \<Rightarrow> pystr \<Rightarrow> (pystr \<Rightarrow> pystr \<Rightarrow> 'a option) \<Rightarrow> 'a option" where
  "rep_greedy P lo hi s k =
     (let run = length (takeWhile P s);
          top = (case hi of None \<Rightarrow> run | Some h \<Rightarrow> min h run)
      in first_some (\<lambda>n. k (take n s) (drop n s)) (rev [lo ..< Suc top]))"

fun re_search :: "(char option \<Rightarrow> pystr \<Rightarrow> 'a option) \<Rightarrow> char option \<Rightarrow> pystr \<Rightarrow> 'a option" where
  "re_search m prev [] = m prev []"
| "re_search m prev (c # cs) =
     (case m prev (c # cs) of Some r \<Rightarrow> Some r | None \<Rightarrow> re_search m (Some c) cs)"

text \<open>\<open>\b\<close>: exactly one of the two neighbours is a word character; the ends of the
  string count as non-word.\<close>

definition word_boundary :: "char option \<Rightarrow> pystr \<Rightarrow> bool" where
  "word_boundary prev rest =
     ((case prev of None \<Rightarrow> False | Some c \<Rightarrow> is_word c) \<noteq>
      (case rest of [] \<Rightarrow> False | c # _ \<Rightarrow> is_word c))"

text \<open>A literal (given in lower case) under \<open>re.IGNORECASE\<close>, and a literal matched as it
  is; both give the input left after the literal. On the code points below 256 a character
  matches a lower-case letter of these patterns exactly when its \<open>lower()\<close> is that
  letter; beyond them CPython also takes U+017F for \<open>s\<close> and U+0130, U+0131 for \<open>i\<close>,
  which no \<open>pystr\<close> holds.\<close>

definition lit_ci :: "pystr \<Rightarrow> pystr \<Rightarrow> pystr option" where
  "lit_ci p s = (if length p \<le> length s \<and> lower (take (length p) s) = p
                 then Some (drop (length p) s) else None)"

definition lit :: "pystr \<Rightarrow> pystr \<Rightarrow> pystr option" where
  "lit p s = (if prefix p s then Some (drop (length p) s) else None)"

text \<open>\<open>\ben\s+([^.,\n]+)\<close> with \<open>re.IGNORECASE\<close>; the result is group 1.\<close>

definition loc_at :: "char option \<Rightarrow> pystr \<Rightarrow> pystr option" where
  "loc_at prev s =
     (if word_boundary prev s then
        (case lit_ci ''en'' s of
           None \<Rightarrow> None
         | Some r \<Rightarrow>
             rep_greedy is_space 1 None r (\<lambda>_ r'.
               rep_greedy (\<lambda>c. c \<notin> set [CHR ''.'', CHR '','', NL]) 1 None r' (\<lambda>g _. Some g)))
      else None)"

text \<open>The two duration patterns have one shape, \<open>(\d{1,k})\s*w\<close> with
  \<open>re.IGNORECASE\<close>; the result is group 1.\<close>

definition num_unit_at :: "nat \<Rightarrow> pystr \<Rightarrow> pystr \<Rightarrow> pystr option" where
  "num_unit_at k w s =
     rep_greedy is_digit 1 (Some k) s (\<lambda>d r.
       rep_greedy is_space 0 None r (\<lambda>_ r'.
         (case lit_ci w r' of None \<Rightarrow> None | Some _ \<Rightarrow> Some d)))"

text \<open>\<open>(\d{1,3})\s*min\<close>.\<close>

definition min_at :: "char option \<Rightarrow> pystr \<Rightarrow> pystr option" where
  "min_at prev s = num_unit_at 3 ''min'' s"

text \<open>\<open>(\d{1,2})\s*hora\<close>.\<close>

definition hr_at :: "char option \<Rightarrow> pystr \<Rightarrow> pystr option" where
  "hr_at prev s = num_unit_at 2 ''hora'' s"

text \<open>\<open>\b(con|para|sobre)\s+(.+)$\<close> with \<open>re.IGNORECASE\<close>; the result is group 2. The
  dot excludes the newline, and \<open>$\<close> holds at the end of the string and before a newline
  that ends it.\<close>

definition title_at :: "char option \<Rightarrow> pystr \<Rightarrow> pystr option" where
  "title_at prev s =
     (if word_boundary prev s then
        first_some (\<lambda>w.
          (case lit_ci w s of
             None \<Rightarrow> None
           | Some r \<Rightarrow>
               rep_greedy is_space 1 None r (\<lambda>_ r'.
                 rep_greedy (\<lambda>c. c \<noteq> NL) 1 None r' (\<lambda>g e.
                   if e = [] \<or> e = [NL] then Some g else None))))
          [''con'', ''para'', ''sobre'']
      else None)"

text \<open>\<open>\b(\d{1,2}[:.]\d{2}|am|pm|\d{1,2}/\d{1,2})\b\<close>, matched on the lower-cased text
  without flags; only the existence of a match is used.\<close>

definition end_boundary :: "pystr \<Rightarrow> pystr \<Rightarrow> unit option" where
  "end_boundary matched rest =
     (if matched \<noteq> [] \<and> word_boundary (Some (last matched)) rest then Some () else None)"

definition clock_alt :: "pystr \<Rightarrow> unit option" where
  "clock_alt s =
     rep_greedy is_digit 1 (Some 2) s (\<lambda>_ r.
       (case r of
          [] \<Rightarrow> None
        | c # r' \<Rightarrow>
            if c \<in> set [CHR '':'', CHR ''.''] then
              rep_greedy is_digit 2 (Some 2) r' (\<lambda>d2 r''. end_boundary d2 r'')
            else None))"

definition word_alt :: "pystr \<Rightarrow> pystr \<Rightarrow> unit option" where
  "word_alt w s = (case lit w s of None \<Rightarrow> None | Some r \<Rightarrow> end_boundary w r)"

definition date_alt :: "pystr \<Rightarrow> unit option" where
  "date_alt s =
     rep_greedy is_digit 1 (Some 2) s (\<lambda>_ r.
       (case r of
          [] \<Rightarrow> None
        | c # r' \<Rightarrow>
            if c = CHR ''/'' then
              rep_greedy is_digit 1 (Some 2) r' (\<lambda>d2 r''. end_boundary d2 r'')
            else None))"

definition time_at :: "char option \<Rightarrow> pystr \<Rightarrow> unit option" where
  "time_at prev s =
     (if word_boundary prev s then
        first_some (\<lambda>alt. alt s) [clock_alt, word_alt ''am'', word_alt ''pm'', date_alt]
      else None)"

section \<open>Timestamps\<close>

text \<open>
  A \<open>datetime\<close> of the program is aware and lies in the configured zone
  \<open>America/Guatemala\<close>, whose offset from UTC is fixed; the model holds its local wall-clock
  reading, on which \<open>astimezone(TZ)\<close> is the identity. The calendar date is held as the
  proleptic Gregorian day number that \<open>datetime\<close> arithmetic itself goes through
  (\<open>toordinal\<close>); \<open>ymd2ord\<close> builds it from year, month and day.
\<close>

record datetime =
  ordinal :: int
  hour :: int
  minute :: int
  second :: int
  microsecond :: int

definition is_leap :: "int \<Rightarrow> bool" where
  "is_leap y = (y mod 4 = 0 \<and> (y mod 100 \<noteq> 0 \<or> y mod 400 = 0))"

definition days_before_year :: "int \<Rightarrow> int" where
  "days_before_year y = (let z = y - 1 in z * 365 + z div 4 - z div 100 + z div 400)"

definition days_before_month :: "int \<Rightarrow> int \<Rightarrow> int" where
  "days_before_month y m =
     [0, 31, 59, 90, 120, 151, 181, 212, 243, 273, 304, 334] ! nat (m - 1) +
     (if 2 < m \<and> is_leap y then 1 else 0)"

definition ymd2ord :: "int \<Rightarrow> int \<Rightarrow> int \<Rightarrow> int" where
  "ymd2ord y m d = days_before_year y + days_before_month y m + d"

definition mk_datetime :: "int \<Rightarrow> int \<Rightarrow> int \<Rightarrow> int \<Rightarrow> int \<Rightarrow> datetime" where
  "mk_datetime y m d hh mm =
     \<lparr>ordinal = ymd2ord y m d, hour = hh, minute = mm, second = 0, microsecond = 0\<rparr>"

definition MAXORDINAL :: int where
  "MAXORDINAL = 3652059"

text \<open>\<open>dt.replace(hour=0, minute=0, second=0, microsecond=0)\<close>.\<close>

definition midnight :: "datetime \<Rightarrow> datetime" where
  "midnight dt = dt\<lparr>hour := 0, minute := 0, second := 0, microsecond := 0\<rparr>"

text \<open>\<open>dt + timedelta(days=d, minutes=m)\<close>: the sum is normalised into days, seconds and
  microseconds, and a day number outside \<open>1 .. MAXORDINAL\<close> raises \<open>OverflowError\<close>
  (\<open>None\<close> here).\<close>

definition add_delta :: "datetime \<Rightarrow> int \<Rightarrow> int \<Rightarrow> datetime option" where
  "add_delta dt d m =
     (let secs = hour dt * 3600 + minute dt * 60 + second dt + m * 60;
          days = ordinal dt + d + secs div 86400;
          s = secs mod 86400
      in if 0 < days \<and> days \<le> MAXORDINAL then
           Some \<lparr>ordinal = days, hour = s div 3600, minute = (s mod 3600) div 60,
                 second = s mod 60, microsecond = microsecond dt\<rparr>
         else None)"

section \<open>Drafts and text extraction\<close>

definition DEFAULT_DURATION_MIN :: int where
  "DEFAULT_DURATION_MIN = 60"

record PendingEvent =
  title :: "pystr option"
  start :: "datetime option"
  ev_end :: "datetime option"
  location :: "pystr option"
  description :: "pystr option"
  duration_min :: "int option"

definition empty_event :: PendingEvent where
  "empty_event = \<lparr>title = None, start = None, ev_end = None, location = None,
                   description = None, duration_min = None\<rparr>"

text \<open>
  \<open>parse_datetime_es\<close> hands the text to the library \<open>dateparser\<close>, which is not part of
  the repository: the resolver is the parameter \<open>dp\<close>, a text giving a timestamp of the
  configured zone or nothing.
\<close>

type_synonym resolver = "pystr \<Rightarrow> datetime option"

definition parse_event_from_text :: "resolver \<Rightarrow> pystr \<Rightarrow> PendingEvent" where
  "parse_event_from_text dp text =
     (let ev0 = empty_event;
          ev1 = (case re_search loc_at None text of
                   Some g \<Rightarrow> ev0\<lparr>location := Some (strip g)\<rparr>
                 | None \<Rightarrow> ev0);
          m_min = re_search min_at None text;
          m_hr = re_search hr_at None text;
          ev2 = (case m_min of
                   Some d \<Rightarrow> ev1\<lparr>duration_min := Some (int (py_int d))\<rparr>
                 | None \<Rightarrow>
                     (case m_hr of
                        Some d \<Rightarrow> ev1\<lparr>duration_min := Some (int (py_int d) * 60)\<rparr>
                      | None \<Rightarrow> ev1));
          ev3 = (case dp text of Some dt \<Rightarrow> ev2\<lparr>start := Some dt\<rparr> | None \<Rightarrow> ev2);
          ev4 = (case re_search title_at None text of
                   Some g \<Rightarrow> ev3\<lparr>title := Some (strip g)\<rparr>
                 | None \<Rightarrow> ev3)
      in if \<not> truthy_str (title ev4) then ev4\<lparr>title := Some (take 30 (strip text))\<rparr> else ev4)"

section \<open>Intent classification\<close>

datatype intent = ListToday | ListTomorrow | ListWeek | ListDate | Create | Unknown

definition INTENT_SCHEDULE_WORDS :: "pystr list" where
  "INTENT_SCHEDULE_WORDS =
     [''agenda'', ''agendar'', ''programa'', ''programar'', ''crea'', ''crear'', ''pon'',
      ''poner'', ''haz'', ''hacer'', ''calendariza'', ''calendarizar'']"

definition INTENT_LIST_WORDS :: "pystr list" where
  "INTENT_LIST_WORDS =
     [''qu'' @ [CHR 0xE9] @ '' tareas tengo'', ''que tareas tengo'',
      ''qu'' @ [CHR 0xE9] @ '' debo hacer'', ''que debo hacer'', ''mi agenda'', ''ver agenda'',
      ''qu'' @ [CHR 0xE9] @ '' hay'', ''que hay'', ''listar'', ''lista'']"

definition manana :: pystr where
  "manana = ''ma'' @ [CHR 0xF1] @ ''ana''"

definition list_trigger :: "pystr \<Rightarrow> bool" where
  "list_trigger t =
     (list_ex (\<lambda>w. py_in w t) INTENT_LIST_WORDS \<or>
      (startswith t ''agenda'' \<and> (py_in ''hoy'' t \<or> py_in manana t)))"

definition detect_intent :: "resolver \<Rightarrow> pystr \<Rightarrow> intent" where
  "detect_intent dp text =
     (let t = strip (lower text) in
      if list_trigger t then
        (if py_in ''hoy'' t then ListToday
         else if py_in manana t then ListTomorrow
         else if py_in ''semana'' t \<or> py_in ''esta semana'' t then ListWeek
         else if dp t \<noteq> None then ListDate
         else ListToday)
      else if list_ex (\<lambda>w. py_in w t) INTENT_SCHEDULE_WORDS then Create
      else if re_search time_at None t \<noteq> None then Create
      else Unknown)"

section \<open>The console session\<close>

text \<open>
  The session reads lines from standard input and calls the calendar service. Its state is
  the list of lines not yet read (an exhausted list is end of input, on which \<open>solicitar\<close>
  gives the empty string) and the trace of what it did so far: prompts with the reply
  read, messages, and calls of the service. The service, the clock and the notification
  address are parameters.
\<close>

datatype error = AttributeError | OverflowError | ServiceError

datatype prompt = QDime | QFecha | QTitulo | QLugar | QDuracion | QConfirm

datatype message =
    MsgHastaLuego | MsgNoEntendi | MsgFaltan | MsgCancelado | MsgAyuda
  | MsgResumen PendingEvent | MsgCreado pystr | MsgError error

datatype action =
    Ask prompt pystr
  | Print message
  | CallList datetime datetime
  | CallCreate PendingEvent
  | Notify pystr

record io =
  inputs :: "pystr list"
  trace :: "action list"

record event_body =
  body_summary :: "pystr option"
  body_location :: pystr
  body_description :: pystr
  body_start :: datetime
  body_end :: datetime

record env =
  resolve :: resolver
  clock_now :: datetime
  svc_insert :: "event_body \<Rightarrow> pystr option"
  svc_list :: "datetime \<Rightarrow> datetime \<Rightarrow> bool"
  notify_to :: bool

definition emit :: "action \<Rightarrow> io \<Rightarrow> io" where
  "emit a st = st\<lparr>trace := trace st @ [a]\<rparr>"

definition solicitar :: "prompt \<Rightarrow> io \<Rightarrow> pystr \<times> io" where
  "solicitar q st =
     (case inputs st of
        [] \<Rightarrow> ([], emit (Ask q []) st)
      | x # xs \<Rightarrow> (strip x, emit (Ask q (strip x)) (st\<lparr>inputs := xs\<rparr>)))"

function pedir_fecha_hora :: "resolver \<Rightarrow> io \<Rightarrow> datetime option \<times> io" where
  "pedir_fecha_hora dp st =
     (case solicitar QFecha st of
        (resp, st1) \<Rightarrow>
          if resp = [] then (None, st1)
          else (case dp resp of
                  Some dt \<Rightarrow> (Some dt, st1)
                | None \<Rightarrow> pedir_fecha_hora dp (emit (Print MsgNoEntendi) st1)))"
  by pat_completeness auto

termination
  by (relation "measure (\<lambda>(dp, st). length (inputs st))")
     (auto simp: solicitar_def emit_def split: list.splits)

declare pedir_fecha_hora.simps [simp del]

definition pedir_titulo :: "io \<Rightarrow> pystr option \<times> io" where
  "pedir_titulo st =
     (case solicitar QTitulo st of (resp, st1) \<Rightarrow> ((if resp \<noteq> [] then Some resp else None), st1))"

definition pedir_lugar :: "io \<Rightarrow> pystr option \<times> io" where
  "pedir_lugar st =
     (case solicitar QLugar st of (resp, st1) \<Rightarrow> ((if resp \<noteq> [] then Some resp else None), st1))"

text \<open>\<open>int(resp)\<close> on a reply: surrounding whitespace, an optional sign, then decimal digits
  that single underscores may separate; anything else raises \<open>ValueError\<close> (\<open>None\<close>
  here), which \<open>pedir_duracion\<close> catches.\<close>

fun int_body :: "pystr \<Rightarrow> bool" where
  "int_body [] = False"
| "int_body [c] = is_digit c"
| "int_body (c # d # r) = (is_digit c \<and> (if d = CHR ''_'' then int_body r else int_body (d # r)))"

definition parse_int :: "pystr \<Rightarrow> int option" where
  "parse_int s =
     (case strip s of
        [] \<Rightarrow> None
      | c # r \<Rightarrow>
          (let neg = (c = CHR ''-'');
               body = (if c = CHR ''-'' \<or> c = CHR ''+'' then r else c # r)
           in if int_body body then
                Some ((if neg then - 1 else 1) * int (py_int (filter is_digit body)))
              else None))"

definition pedir_duracion :: "io \<Rightarrow> int option \<times> io" where
  "pedir_duracion st =
     (case solicitar QDuracion st of
        (resp, st1) \<Rightarrow>
          if resp = [] then (None, st1)
          else (case parse_int resp of
                  Some v \<Rightarrow> ((if 0 < v then Some v else None), st1)
                | None \<Rightarrow> (None, st1)))"

text \<open>\<open>completar_datos\<close> is four statements in a row, one per field; each is a step
  here.\<close>

definition fill_start :: "resolver \<Rightarrow> PendingEvent \<Rightarrow> io \<Rightarrow> PendingEvent \<times> io" where
  "fill_start dp ev st =
     (if start ev = None
      then (case pedir_fecha_hora dp st of (r, s) \<Rightarrow> (ev\<lparr>start := r\<rparr>, s))
      else (ev, st))"

definition fill_title :: "PendingEvent \<Rightarrow> io \<Rightarrow> PendingEvent \<times> io" where
  "fill_title ev st =
     (if \<not> truthy_str (title ev)
      then (case pedir_titulo st of (r, s) \<Rightarrow> (ev\<lparr>title := r\<rparr>, s))
      else (ev, st))"

definition fill_location :: "PendingEvent \<Rightarrow> io \<Rightarrow> PendingEvent \<times> io" where
  "fill_location ev st =
     (if \<not> truthy_str (location ev)
      then (case pedir_lugar st of (r, s) \<Rightarrow> (ev\<lparr>location := r\<rparr>, s))
      else (ev, st))"

definition fill_duration :: "PendingEvent \<Rightarrow> io \<Rightarrow> PendingEvent \<times> io" where
  "fill_duration ev st =
     (if \<not> truthy_int (duration_min ev)
      then (case pedir_duracion st of
              (r, s) \<Rightarrow>
                (ev\<lparr>duration_min := (if truthy_int r then r else Some DEFAULT_DURATION_MIN)\<rparr>, s))
      else (ev, st))"

definition completar_datos :: "resolver \<Rightarrow> PendingEvent \<Rightarrow> io \<Rightarrow> PendingEvent \<times> io" where
  "completar_datos dp ev st =
     (case fill_start dp ev st of
        (ev1, st1) \<Rightarrow>
          (case fill_title ev1 st1 of
             (ev2, st2) \<Rightarrow>
               (case fill_location ev2 st2 of
                  (ev3, st3) \<Rightarrow> fill_duration ev3 st3)))"

definition confirmar_evento :: "PendingEvent \<Rightarrow> io \<Rightarrow> bool \<times> io" where
  "confirmar_evento ev st =
     (case solicitar QConfirm (emit (Print (MsgResumen ev)) st) of
        (resp, st1) \<Rightarrow> (startswith (lower resp) ''s'', st1))"

text \<open>\<open>ev.duration_min or DEFAULT_DURATION_MIN\<close> and \<open>ev.location or ""\<close>.\<close>

definition or_default :: "int option \<Rightarrow> int" where
  "or_default d = (case d of None \<Rightarrow> DEFAULT_DURATION_MIN
                   | Some n \<Rightarrow> if n \<noteq> 0 then n else DEFAULT_DURATION_MIN)"

definition or_empty :: "pystr option \<Rightarrow> pystr" where
  "or_empty x = (case x of None \<Rightarrow> [] | Some s \<Rightarrow> s)"

text \<open>\<open>create_event\<close> builds the request body, then calls the service; \<open>svc_insert\<close>
  gives the link of the created event, or nothing when the call raises.\<close>

definition event_body_of :: "PendingEvent \<Rightarrow> error + event_body" where
  "event_body_of ev =
     (case start ev of
        None \<Rightarrow> Inl AttributeError
      | Some start_dt \<Rightarrow>
          (case (case ev_end ev of
                   Some e \<Rightarrow> Some e
                 | None \<Rightarrow> add_delta start_dt 0 (or_default (duration_min ev))) of
             None \<Rightarrow> Inl OverflowError
           | Some end_dt \<Rightarrow>
               Inr \<lparr>body_summary = title ev, body_location = or_empty (location ev),
                    body_description = or_empty (description ev),
                    body_start = start_dt, body_end = end_dt\<rparr>))"

definition create_event :: "(event_body \<Rightarrow> pystr option) \<Rightarrow> PendingEvent \<Rightarrow> error + pystr" where
  "create_event ins ev =
     (case event_body_of ev of
        Inl e \<Rightarrow> Inl e
      | Inr body \<Rightarrow> (case ins body of None \<Rightarrow> Inl ServiceError | Some link \<Rightarrow> Inr link))"

definition flujo_notificacion :: "env \<Rightarrow> pystr \<Rightarrow> io \<Rightarrow> io" where
  "flujo_notificacion e link st = (if notify_to e then emit (Notify link) st else st)"

text \<open>The \<open>try\<close> block of \<open>main\<close> around \<open>create_event\<close>: every exception is caught and
  reported.\<close>

definition do_create :: "env \<Rightarrow> PendingEvent \<Rightarrow> io \<Rightarrow> io" where
  "do_create e ev st =
     (let st1 = emit (CallCreate ev) st in
      case create_event (svc_insert e) ev of
        Inr link \<Rightarrow> flujo_notificacion e link (emit (Print (MsgCreado link)) st1)
      | Inl err \<Rightarrow> emit (Print (MsgError err)) st1)"

datatype outcome = Continue | Stop | Raised error

text \<open>\<open>list_events\<close> is called outside any \<open>try\<close>: a failing service call ends the
  session with the exception.\<close>

definition do_list :: "env \<Rightarrow> datetime \<Rightarrow> datetime \<Rightarrow> io \<Rightarrow> outcome \<times> io" where
  "do_list e s t st =
     (let st1 = emit (CallList s t) st in
      if svc_list e s t then (Continue, st1) else (Raised ServiceError, st1))"

definition list_from :: "env \<Rightarrow> datetime \<Rightarrow> int \<Rightarrow> io \<Rightarrow> outcome \<times> io" where
  "list_from e s days st =
     (case add_delta s days 0 of
        None \<Rightarrow> (Raised OverflowError, st)
      | Some t \<Rightarrow> do_list e s t st)"

definition create_flow :: "env \<Rightarrow> pystr \<Rightarrow> io \<Rightarrow> outcome \<times> io" where
  "create_flow e texto st =
     (case completar_datos (resolve e) (parse_event_from_text (resolve e) texto) st of
        (ev, st1) \<Rightarrow>
          if start ev = None \<or> \<not> truthy_str (title ev) then (Continue, emit (Print MsgFaltan) st1)
          else (case confirmar_evento ev st1 of
                  (ok, st2) \<Rightarrow>
                    if \<not> ok then (Continue, emit (Print MsgCancelado) st2)
                    else (Continue, do_create e ev st2)))"

definition unknown_flow :: "env \<Rightarrow> pystr \<Rightarrow> io \<Rightarrow> outcome \<times> io" where
  "unknown_flow e texto st =
     (let ev0 = parse_event_from_text (resolve e) texto in
      if start ev0 \<noteq> None then
        (case completar_datos (resolve e) ev0 st of
           (ev, st1) \<Rightarrow>
             if start ev \<noteq> None \<and> truthy_str (title ev) then
               (case confirmar_evento ev st1 of
                  (ok, st2) \<Rightarrow>
                    if ok then (Continue, do_create e ev st2)
                    else (Continue, emit (Print MsgAyuda) st2))
             else (Continue, emit (Print MsgAyuda) st1))
      else (Continue, emit (Print MsgAyuda) st))"

text \<open>The body of the loop of \<open>main\<close> once a line was read that does not end the session.\<close>

definition handle_text :: "env \<Rightarrow> pystr \<Rightarrow> io \<Rightarrow> outcome \<times> io" where
  "handle_text e texto st =
     (case detect_intent (resolve e) texto of
        ListToday \<Rightarrow> list_from e (midnight (clock_now e)) 1 st
      | ListTomorrow \<Rightarrow>
          (case add_delta (clock_now e) 1 0 of
             None \<Rightarrow> (Raised OverflowError, st)
           | Some n1 \<Rightarrow> list_from e (midnight n1) 1 st)
      | ListWeek \<Rightarrow> list_from e (midnight (clock_now e)) 7 st
      | ListDate \<Rightarrow>
          (case resolve e texto of
             Some dt \<Rightarrow> list_from e (midnight dt) 1 st
           | None \<Rightarrow> unknown_flow e texto st)
      | Create \<Rightarrow> create_flow e texto st
      | Unknown \<Rightarrow> unknown_flow e texto st)"

text \<open>One turn of the loop: read a line, leave on an empty line or a leave word, else
  handle the line.\<close>

definition main_step :: "env \<Rightarrow> io \<Rightarrow> outcome \<times> io" where
  "main_step e st =
     (case solicitar QDime st of
        (texto, st1) \<Rightarrow>
          if texto = [] \<or> lower texto \<in> set [''salir'', ''exit'', ''quit'']
          then (Stop, emit (Print MsgHastaLuego) st1)
          else handle_text e texto st1)"

section \<open>Example inputs\<close>

text \<open>The sentence that the banner of \<open>main\<close> shows first, and a resolver that answers
  2024-06-11 15:00 for it, as resolution at the reference date 2024-06-10 does.\<close>

definition dentist_text :: pystr where
  "dentist_text =
     ''agenda una cita ma'' @ [CHR 0xF1] @
     ''ana a las 3pm con el dentista en zona 10 por 45 minutos''"

definition dentist_resolver :: resolver where
  "dentist_resolver s = (if s = dentist_text then Some (mk_datetime 2024 6 11 15 0) else None)"

definition no_resolver :: resolver where
  "no_resolver s = None"


definition example_resolver :: resolver where
  "example_resolver s =
     (if s = ''7pm'' then Some (mk_datetime 2024 6 10 19 0)
      else if s = ''mi agenda 12/09'' then Some (mk_datetime 2024 9 12 14 30)
      else None)"

definition example_env :: env where
  "example_env =
     \<lparr>resolve = example_resolver, clock_now = mk_datetime 2024 6 10 23 30,
      svc_insert = (\<lambda>b. Some ''https://calendar/event''), svc_list = (\<lambda>s t. True),
      notify_to = False\<rparr>"

definition fresh :: "pystr list \<Rightarrow> io" where
  "fresh ins = \<lparr>inputs = ins, trace = []\<rparr>"

definition example_draft :: PendingEvent where
  "example_draft =
     empty_event\<lparr>title := Some ''Dentista'', start := Some (mk_datetime 2024 6 11 15 0),
                 location := Some ''zona 10''\<rparr>"

text \<open>The draft that \<open>7pm\<close> gives once the place \<open>oficina\<close> was supplied and the
  duration prompt skipped.\<close>

definition confirmed_draft :: PendingEvent where
  "confirmed_draft =
     \<lparr>title = Some ''7pm'', start = Some (mk_datetime 2024 6 10 19 0), ev_end = None,
      location = Some ''oficina'', description = None, duration_min = Some 60\<rparr>"

section \<open>Observations on a trace\<close>

text \<open>The actions that matter to the calendar: the calls of the service and the reply to
  the confirmation question.\<close>

fun notable :: "action \<Rightarrow> bool" where
  "notable (CallCreate ev) = True"
| "notable (CallList s t) = True"
| "notable (Ask q r) = (q = QConfirm)"
| "notable (Print m) = False"
| "notable (Notify l) = False"

definition observed :: "io \<Rightarrow> action list" where
  "observed st = filter notable (trace st)"

fun is_create :: "action \<Rightarrow> bool" where
  "is_create (CallCreate ev) = True"
| "is_create a = False"

text \<open>How many times the general help message was printed.\<close>

definition helps :: "io \<Rightarrow> nat" where
  "helps st = length (filter (\<lambda>a. a = Print MsgAyuda) (trace st))"

text \<open>What one utterance may add to the observations: nothing, one listing, a declined
  confirmation, or an accepted confirmation followed by the creation of a complete draft.\<close>

definition flow_shape :: "action list \<Rightarrow> bool" where
  "flow_shape X \<longleftrightarrow>
     X = [] \<or> (\<exists>a b. X = [CallList a b]) \<or>
     (\<exists>r. X = [Ask QConfirm r] \<and> \<not> startswith (lower r) ''s'') \<or>
     (\<exists>r ev. X = [Ask QConfirm r, CallCreate ev] \<and> startswith (lower r) ''s'' \<and>
        start ev \<noteq> None \<and> truthy_str (title ev))"


definition plus_days :: "datetime \<Rightarrow> int \<Rightarrow> datetime" where
  "plus_days dt n = dt\<lparr>ordinal := ordinal dt + n\<rparr>"

section \<open>Strings: containment survives normalisation\<close>





lemma esta_semana_semana:
  assumes "py_in ''esta semana'' t"
  shows "py_in ''semana'' t"
proof -
  from assms obtain ps ss where "t = ps @ ''esta semana'' @ ss"
    by (auto simp: py_in_def sublist_def)
  then have "t = (ps @ ''esta '') @ ''semana'' @ ss"
    by simp
  then show ?thesis
    unfolding py_in_def by (simp only: sublist_appendI)
qed

section \<open>The fields of an extracted draft\<close>

lemma parse_location:
  "location (parse_event_from_text dp txt) = map_option strip (re_search loc_at None txt)"
  by (simp add: parse_event_from_text_def empty_event_def Let_def split: option.splits)

lemma parse_start: "start (parse_event_from_text dp txt) = dp txt"
  by (simp add: parse_event_from_text_def empty_event_def Let_def split: option.splits)

lemma parse_duration:
  "duration_min (parse_event_from_text dp txt) =
     (case re_search min_at None txt of
        Some d \<Rightarrow> Some (int (py_int d))
      | None \<Rightarrow> (case re_search hr_at None txt of
                   Some d \<Rightarrow> Some (int (py_int d) * 60)
                 | None \<Rightarrow> None))"
  by (simp add: parse_event_from_text_def empty_event_def Let_def split: option.splits)

lemma parse_title:
  "title (parse_event_from_text dp txt) =
     (case re_search title_at None txt of
        Some g \<Rightarrow> if strip g \<noteq> [] then Some (strip g) else Some (take 30 (strip txt))
      | None \<Rightarrow> Some (take 30 (strip txt)))"
  by (simp add: parse_event_from_text_def empty_event_def Let_def truthy_str_def
      split: option.splits)

section \<open>The banner sentence\<close>

lemma dentist_loc: "re_search loc_at None dentist_text = Some ''zona 10 por 45 minutos''"
  by code_simp

lemma dentist_min: "re_search min_at None dentist_text = Some ''45''"
  by code_simp

lemma dentist_title:
  "re_search title_at None dentist_text = Some ''el dentista en zona 10 por 45 minutos''"
  by code_simp

lemma dentist_values:
  "strip ''zona 10 por 45 minutos'' = ''zona 10 por 45 minutos''"
  "strip ''el dentista en zona 10 por 45 minutos'' = ''el dentista en zona 10 por 45 minutos''"
  "py_int ''45'' = 45"
  by code_simp+

lemma dentist_intent: "detect_intent dp dentist_text = ListTomorrow"
  by code_simp

text \<open>
  Claim C1, as the code has it: for the banner sentence and whatever the resolver answers,
  extraction gives the location \<open>zona 10 por 45 minutos\<close> (the text after \<open>en\<close> up to the
  next full stop, comma or newline, of which there is none), the duration 45, the start
  that the resolver gives for the whole sentence, and the title
  \<open>el dentista en zona 10 por 45 minutos\<close> (the text after \<open>con\<close> up to the end).
\<close>

theorem dentist_extraction:
  "location (parse_event_from_text dp dentist_text) = Some ''zona 10 por 45 minutos'' \<and>
   duration_min (parse_event_from_text dp dentist_text) = Some 45 \<and>
   start (parse_event_from_text dp dentist_text) = dp dentist_text \<and>
   title (parse_event_from_text dp dentist_text) =
     Some ''el dentista en zona 10 por 45 minutos''"
  by (simp add: parse_location parse_duration parse_start parse_title
      dentist_loc dentist_min dentist_title dentist_values)

text \<open>
  Claim C1 as stated fails on the banner sentence, even with a resolver that answers
  2024-06-11 15:00: the location is not \<open>zona 10\<close>.
\<close>

theorem dentist_claim_counterexample:
  "\<not> (detect_intent dentist_resolver dentist_text = Create \<and>
      location (parse_event_from_text dentist_resolver dentist_text) = Some ''zona 10'' \<and>
      duration_min (parse_event_from_text dentist_resolver dentist_text) = Some 45 \<and>
      start (parse_event_from_text dentist_resolver dentist_text) =
        Some (mk_datetime 2024 6 11 15 0) \<and>
      title (parse_event_from_text dentist_resolver dentist_text) = Some ''el dentista'')"
  by (simp add: parse_location dentist_loc dentist_values)

section \<open>Classifier priority\<close>




section \<open>Failed resolution\<close>

text \<open>
  Claim C8: a resolver that finds nothing is not an error for its callers. When it gives
  nothing for the text, the extractor still returns a draft, whose start is unset; when
  the list check fired, no day word is in the text and the resolver gives nothing for the
  normalised text, the classifier answers \<open>ListToday\<close>.
\<close>

theorem unparseable_non_fatal:
  "(dp txt = None \<longrightarrow> start (parse_event_from_text dp txt) = None) \<and>
   (list_trigger (strip (lower txt)) \<and> \<not> py_in ''hoy'' (strip (lower txt)) \<and>
    \<not> py_in manana (strip (lower txt)) \<and> \<not> py_in ''semana'' (strip (lower txt)) \<and>
    dp (strip (lower txt)) = None \<longrightarrow> detect_intent dp txt = ListToday)"
  by (auto simp: parse_start detect_intent_def Let_def dest: esta_semana_semana)

theorem unparseable_non_fatal_witness:
  "no_resolver ''Listar'' = None \<and>
   start (parse_event_from_text no_resolver ''Listar'') = None \<and>
   list_trigger (strip (lower ''Listar'')) \<and> \<not> py_in ''hoy'' (strip (lower ''Listar'')) \<and>
   \<not> py_in manana (strip (lower ''Listar'')) \<and> \<not> py_in ''semana'' (strip (lower ''Listar'')) \<and>
   no_resolver (strip (lower ''Listar'')) = None \<and>
   detect_intent no_resolver ''Listar'' = ListToday"
proof -
  have n: "strip (lower ''Listar'') = ''listar''"
    by code_simp
  have h: "list_trigger ''listar''" "\<not> py_in ''hoy'' ''listar''"
    "\<not> py_in manana ''listar''" "\<not> py_in ''semana'' ''listar''"
    by code_simp+
  show ?thesis
    using unparseable_non_fatal [of no_resolver "''Listar''"] h
    by (simp add: n no_resolver_def)
qed

section \<open>What the session does to the trace\<close>

lemma trace_emit [simp]: "trace (emit a st) = trace st @ [a]"
  by (simp add: emit_def)

lemma inputs_emit [simp]: "inputs (emit a st) = inputs st"
  by (simp add: emit_def)

lemma observed_emit: "observed (emit a st) = observed st @ (if notable a then [a] else [])"
  by (simp add: observed_def)

lemma observed_solicitar:
  assumes "solicitar q st = (r, st')"
  shows "observed st' = observed st @ (if q = QConfirm then [Ask QConfirm r] else [])"
  using assms by (auto simp: solicitar_def observed_def split: list.splits)

lemma observed_pedir_fecha_hora:
  "observed (snd (pedir_fecha_hora dp st)) = observed st"
proof (induction dp st rule: pedir_fecha_hora.induct)
  case (1 dp st)
  obtain resp st1 where s: "solicitar QFecha st = (resp, st1)"
    by (cases "solicitar QFecha st")
  have o1: "observed st1 = observed st"
    using observed_solicitar [OF s] by simp
  show ?case
  proof (cases "resp = []")
    case True
    then show ?thesis
      using s o1 by (subst pedir_fecha_hora.simps) simp
  next
    case False
    show ?thesis
    proof (cases "dp resp")
      case None
      have "observed (snd (pedir_fecha_hora dp (emit (Print MsgNoEntendi) st1))) = observed st"
        using "1.IH" [OF s [symmetric] False None] o1 by (simp add: observed_emit)
      then show ?thesis
        using s False None by (subst pedir_fecha_hora.simps) simp
    next
      case (Some dt)
      then show ?thesis
        using s False o1 by (subst pedir_fecha_hora.simps) simp
    qed
  qed
qed

lemma observed_pedir_titulo: "observed (snd (pedir_titulo st)) = observed st"
  using observed_solicitar [of QTitulo st]
  by (cases "solicitar QTitulo st") (simp add: pedir_titulo_def)

lemma observed_pedir_lugar: "observed (snd (pedir_lugar st)) = observed st"
  using observed_solicitar [of QLugar st]
  by (cases "solicitar QLugar st") (simp add: pedir_lugar_def)

lemma observed_pedir_duracion: "observed (snd (pedir_duracion st)) = observed st"
  using observed_solicitar [of QDuracion st]
  by (cases "solicitar QDuracion st") (simp add: pedir_duracion_def split: option.splits)

lemma observed_fill_start: "observed (snd (fill_start dp ev st)) = observed st"
  using observed_pedir_fecha_hora [of dp st]
  by (cases "pedir_fecha_hora dp st") (simp add: fill_start_def)

lemma observed_fill_title: "observed (snd (fill_title ev st)) = observed st"
  using observed_pedir_titulo [of st]
  by (cases "pedir_titulo st") (simp add: fill_title_def)

lemma observed_fill_location: "observed (snd (fill_location ev st)) = observed st"
  using observed_pedir_lugar [of st]
  by (cases "pedir_lugar st") (simp add: fill_location_def)

lemma observed_fill_duration: "observed (snd (fill_duration ev st)) = observed st"
  using observed_pedir_duracion [of st]
  by (cases "pedir_duracion st") (simp add: fill_duration_def)

lemma observed_completar_datos:
  "observed (snd (completar_datos dp ev st)) = observed st"
proof -
  obtain ev1 st1 where 1: "fill_start dp ev st = (ev1, st1)" by (cases "fill_start dp ev st")
  obtain ev2 st2 where 2: "fill_title ev1 st1 = (ev2, st2)" by (cases "fill_title ev1 st1")
  obtain ev3 st3 where 3: "fill_location ev2 st2 = (ev3, st3)" by (cases "fill_location ev2 st2")
  have "observed st1 = observed st" using observed_fill_start [of dp ev st] 1 by simp
  moreover have "observed st2 = observed st1" using observed_fill_title [of ev1 st1] 2 by simp
  moreover have "observed st3 = observed st2" using observed_fill_location [of ev2 st2] 3 by simp
  moreover have "observed (snd (fill_duration ev3 st3)) = observed st3"
    by (rule observed_fill_duration)
  ultimately show ?thesis
    by (simp add: completar_datos_def 1 2 3)
qed

lemma observed_confirmar_evento:
  assumes "confirmar_evento ev st = (ok, st')"
  shows "\<exists>r. observed st' = observed st @ [Ask QConfirm r] \<and> ok = startswith (lower r) ''s''"
proof -
  obtain r s1 where s: "solicitar QConfirm (emit (Print (MsgResumen ev)) st) = (r, s1)"
    by (cases "solicitar QConfirm (emit (Print (MsgResumen ev)) st)")
  from observed_solicitar [OF s] have "observed s1 = observed st @ [Ask QConfirm r]"
    by (simp add: observed_emit)
  with assms s show ?thesis
    by (auto simp: confirmar_evento_def)
qed

lemma observed_do_create: "observed (do_create e ev st) = observed st @ [CallCreate ev]"
  by (simp add: do_create_def Let_def flujo_notificacion_def observed_emit
      split: sum.splits)

lemma mem_observed: "a \<in> set (observed st) \<longleftrightarrow> a \<in> set (trace st) \<and> notable a"
  by (auto simp: observed_def)

lemma observed_fresh [simp]: "observed (fresh ins) = []"
  by (simp add: observed_def fresh_def)

lemma create_flow_result:
  assumes "completar_datos (resolve e) (parse_event_from_text (resolve e) texto) st = (ev, st1)"
    and "confirmar_evento ev st1 = (ok, st2)"
  shows "create_flow e texto st =
           (if start ev = None \<or> \<not> truthy_str (title ev) then (Continue, emit (Print MsgFaltan) st1)
            else if \<not> ok then (Continue, emit (Print MsgCancelado) st2)
            else (Continue, do_create e ev st2))"
  using assms by (simp add: create_flow_def)

lemma unknown_flow_result:
  assumes "completar_datos (resolve e) (parse_event_from_text (resolve e) texto) st = (ev, st1)"
    and "confirmar_evento ev st1 = (ok, st2)"
  shows "unknown_flow e texto st =
           (if resolve e texto = None then (Continue, emit (Print MsgAyuda) st)
            else if start ev = None \<or> \<not> truthy_str (title ev)
              then (Continue, emit (Print MsgAyuda) st1)
            else if \<not> ok then (Continue, emit (Print MsgAyuda) st2)
            else (Continue, do_create e ev st2))"
  using assms by (auto simp: unknown_flow_def Let_def parse_start)

lemma create_flow_shape:
  "fst (create_flow e texto st) = Continue \<and>
   (\<exists>X. observed (snd (create_flow e texto st)) = observed st @ X \<and> flow_shape X)"
proof -
  obtain ev st1 where cd:
    "completar_datos (resolve e) (parse_event_from_text (resolve e) texto) st = (ev, st1)"
    by (cases "completar_datos (resolve e) (parse_event_from_text (resolve e) texto) st")
  obtain ok st2 where ce: "confirmar_evento ev st1 = (ok, st2)"
    by (cases "confirmar_evento ev st1")
  have o1: "observed st1 = observed st"
    using observed_completar_datos [of "resolve e" "parse_event_from_text (resolve e) texto" st] cd
    by simp
  obtain r where o2: "observed st2 = observed st1 @ [Ask QConfirm r]"
    and ok: "ok = startswith (lower r) ''s''"
    using observed_confirmar_evento [OF ce] by blast
  show ?thesis
    unfolding create_flow_result [OF cd ce]
    using o1 o2 ok
    by (auto simp: observed_emit observed_do_create flow_shape_def)
qed

lemma unknown_flow_shape:
  "fst (unknown_flow e texto st) = Continue \<and>
   (\<exists>X. observed (snd (unknown_flow e texto st)) = observed st @ X \<and> flow_shape X)"
proof -
  obtain ev st1 where cd:
    "completar_datos (resolve e) (parse_event_from_text (resolve e) texto) st = (ev, st1)"
    by (cases "completar_datos (resolve e) (parse_event_from_text (resolve e) texto) st")
  obtain ok st2 where ce: "confirmar_evento ev st1 = (ok, st2)"
    by (cases "confirmar_evento ev st1")
  have o1: "observed st1 = observed st"
    using observed_completar_datos [of "resolve e" "parse_event_from_text (resolve e) texto" st] cd
    by simp
  obtain r where o2: "observed st2 = observed st1 @ [Ask QConfirm r]"
    and ok: "ok = startswith (lower r) ''s''"
    using observed_confirmar_evento [OF ce] by blast
  show ?thesis
    unfolding unknown_flow_result [OF cd ce]
    using o1 o2 ok
    by (auto simp: observed_emit observed_do_create flow_shape_def)
qed

lemma list_from_shape:
  "\<exists>X. observed (snd (list_from e s d st)) = observed st @ X \<and> flow_shape X"
  by (auto simp: list_from_def do_list_def Let_def observed_emit flow_shape_def
      split: option.splits)

lemma handle_text_shape:
  "\<exists>X. observed (snd (handle_text e texto st)) = observed st @ X \<and> flow_shape X"
proof (cases "detect_intent (resolve e) texto")
  case ListToday
  then show ?thesis by (simp add: handle_text_def list_from_shape)
next
  case ListTomorrow
  show ?thesis
  proof (cases "add_delta (clock_now e) 1 0")
    case None
    then show ?thesis
      using ListTomorrow by (simp add: handle_text_def flow_shape_def)
  next
    case (Some n1)
    then show ?thesis
      using ListTomorrow by (simp add: handle_text_def list_from_shape)
  qed
next
  case ListWeek
  then show ?thesis by (simp add: handle_text_def list_from_shape)
next
  case ListDate
  then show ?thesis
    using unknown_flow_shape [of e texto st]
    by (cases "resolve e texto") (simp_all add: handle_text_def list_from_shape)
next
  case Create
  then show ?thesis
    using create_flow_shape [of e texto st] by (simp add: handle_text_def)
next
  case Unknown
  then show ?thesis
    using unknown_flow_shape [of e texto st] by (simp add: handle_text_def)
qed

section \<open>Confirmation\<close>

text \<open>
  Claim C10: whatever the utterance, the session calls the creation of an event only
  after the confirmation question was answered with a reply that, in lower case, starts
  with \<open>s\<close>; after any other reply (the empty one included) the utterance ends with no
  creation and no listing call at all.
\<close>

theorem confirmation_gates_create:
  "(CallCreate ev \<in> set (trace (snd (handle_text e texto (fresh ins)))) \<longrightarrow>
      (\<exists>r. Ask QConfirm r \<in> set (trace (snd (handle_text e texto (fresh ins)))) \<and>
           startswith (lower r) ''s'')) \<and>
   (Ask QConfirm r \<in> set (trace (snd (handle_text e texto (fresh ins)))) \<and>
    \<not> startswith (lower r) ''s'' \<longrightarrow>
      (\<forall>a \<in> set (trace (snd (handle_text e texto (fresh ins)))).
         \<not> is_create a \<and> (\<forall>s t. a \<noteq> CallList s t)))"
proof -
  obtain X where X: "observed (snd (handle_text e texto (fresh ins))) = X" and sh: "flow_shape X"
    using handle_text_shape [of e texto "fresh ins"] by auto
  have m: "\<And>a. notable a \<Longrightarrow> a \<in> set (trace (snd (handle_text e texto (fresh ins)))) \<longleftrightarrow> a \<in> set X"
    using X mem_observed by blast
  have c: "\<And>a. is_create a \<Longrightarrow> notable a"
    by (case_tac a) auto
  show ?thesis
  proof (intro conjI impI ballI)
    assume "CallCreate ev \<in> set (trace (snd (handle_text e texto (fresh ins))))"
    then have "CallCreate ev \<in> set X" using m by simp
    with sh obtain r where "X = [Ask QConfirm r, CallCreate ev]" "startswith (lower r) ''s''"
      by (auto simp: flow_shape_def)
    then show "\<exists>r. Ask QConfirm r \<in> set (trace (snd (handle_text e texto (fresh ins)))) \<and>
           startswith (lower r) ''s''"
      using m [of "Ask QConfirm r"] by auto
  next
    fix a
    assume h: "Ask QConfirm r \<in> set (trace (snd (handle_text e texto (fresh ins)))) \<and>
      \<not> startswith (lower r) ''s''"
      and a: "a \<in> set (trace (snd (handle_text e texto (fresh ins))))"
    from h have "Ask QConfirm r \<in> set X" using m by simp
    with sh h have Xr: "X = [Ask QConfirm r]"
      by (auto simp: flow_shape_def)
    show "\<not> is_create a"
    proof
      assume "is_create a"
      then have "a \<in> set X" using m c a by simp
      with Xr \<open>is_create a\<close> show False by auto
    qed
    show "\<forall>s t. a \<noteq> CallList s t"
    proof (intro allI notI)
      fix s t assume "a = CallList s t"
      then have "a \<in> set X" using m a by simp
      with Xr \<open>a = CallList s t\<close> show False by auto
    qed
  qed
qed

lemma run_accept:
  "trace (snd (handle_text example_env ''7pm'' (fresh [''oficina'', '''', ''s'']))) =
     [Ask QLugar ''oficina'', Ask QDuracion '''', Print (MsgResumen confirmed_draft),
      Ask QConfirm ''s'', CallCreate confirmed_draft, Print (MsgCreado ''https://calendar/event'')]"
  by code_simp

lemma run_decline:
  "trace (snd (handle_text example_env ''7pm'' (fresh [''oficina'', '''', ''n'']))) =
     [Ask QLugar ''oficina'', Ask QDuracion '''', Print (MsgResumen confirmed_draft),
      Ask QConfirm ''n'', Print MsgAyuda]"
  by code_simp

theorem confirmation_gates_create_witness:
  "CallCreate confirmed_draft \<in>
     set (trace (snd (handle_text example_env ''7pm'' (fresh [''oficina'', '''', ''s''])))) \<and>
   (\<exists>r. Ask QConfirm r \<in>
          set (trace (snd (handle_text example_env ''7pm'' (fresh [''oficina'', '''', ''s''])))) \<and>
        startswith (lower r) ''s'') \<and>
   Ask QConfirm ''n'' \<in>
     set (trace (snd (handle_text example_env ''7pm'' (fresh [''oficina'', '''', ''n''])))) \<and>
   startswith (lower ''n'') ''s'' = False \<and>
   list_ex is_create
     (trace (snd (handle_text example_env ''7pm'' (fresh [''oficina'', '''', ''n''])))) = False"
proof -
  have a: "CallCreate confirmed_draft \<in>
     set (trace (snd (handle_text example_env ''7pm'' (fresh [''oficina'', '''', ''s'']))))"
    by (simp add: run_accept)
  have b: "Ask QConfirm ''n'' \<in>
     set (trace (snd (handle_text example_env ''7pm'' (fresh [''oficina'', '''', ''n'']))))"
    by (simp add: run_decline)
  have c: "\<not> startswith (lower ''n'') ''s''"
    by code_simp
  show ?thesis
    using a b c
      confirmation_gates_create [of confirmed_draft example_env "''7pm''" "[''oficina'', '''', ''s'']"]
      confirmation_gates_create [of _ example_env "''7pm''" "[''oficina'', '''', ''n'']" "''n''"]
    unfolding list_ex_iff by blast
qed

section \<open>Unknown utterances\<close>

lemma mem_trace_observed:
  "notable a \<Longrightarrow> a \<in> set (trace st) \<longleftrightarrow> a \<in> set (observed st)"
  by (simp add: mem_observed)

lemma unknown_flow_no_list:
  assumes "CallList s t \<in> set (trace (snd (unknown_flow e texto st)))"
  shows "CallList s t \<in> set (trace st)"
proof -
  obtain ev st1 where cd:
    "completar_datos (resolve e) (parse_event_from_text (resolve e) texto) st = (ev, st1)"
    by (cases "completar_datos (resolve e) (parse_event_from_text (resolve e) texto) st")
  obtain ok st2 where ce: "confirmar_evento ev st1 = (ok, st2)"
    by (cases "confirmar_evento ev st1")
  have o1: "observed st1 = observed st"
    using observed_completar_datos [of "resolve e" "parse_event_from_text (resolve e) texto" st] cd
    by simp
  obtain r where o2: "observed st2 = observed st1 @ [Ask QConfirm r]"
    using observed_confirmar_evento [OF ce] by blast
  have "CallList s t \<in> set (observed (snd (unknown_flow e texto st)))"
    using assms by (simp add: mem_observed)
  then have "CallList s t \<in> set (observed st)"
    unfolding unknown_flow_result [OF cd ce]
    using o1 o2 by (auto simp: observed_emit observed_do_create split: if_splits)
  then show ?thesis
    by (simp add: mem_observed)
qed

text \<open>The help message is printed by \<open>main\<close> only: the prompts, the confirmation and
  the creation leave its count as it is.\<close>

lemma helps_emit: "helps (emit a st) = helps st + (if a = Print MsgAyuda then 1 else 0)"
  by (simp add: helps_def)

lemma helps_solicitar:
  assumes "solicitar q st = (r, st')"
  shows "helps st' = helps st"
  using assms by (auto simp: solicitar_def helps_def split: list.splits)

lemma helps_pedir_fecha_hora: "helps (snd (pedir_fecha_hora dp st)) = helps st"
proof (induction dp st rule: pedir_fecha_hora.induct)
  case (1 dp st)
  obtain resp st1 where s: "solicitar QFecha st = (resp, st1)"
    by (cases "solicitar QFecha st")
  have h1: "helps st1 = helps st"
    using helps_solicitar [OF s] .
  show ?case
  proof (cases "resp = []")
    case True
    then show ?thesis
      using s h1 by (subst pedir_fecha_hora.simps) simp
  next
    case False
    show ?thesis
    proof (cases "dp resp")
      case None
      have "helps (snd (pedir_fecha_hora dp (emit (Print MsgNoEntendi) st1))) = helps st"
        using "1.IH" [OF s [symmetric] False None] h1 by (simp add: helps_emit)
      then show ?thesis
        using s False None by (subst pedir_fecha_hora.simps) simp
    next
      case (Some dt)
      then show ?thesis
        using s False h1 by (subst pedir_fecha_hora.simps) simp
    qed
  qed
qed

lemma helps_pedir_titulo: "helps (snd (pedir_titulo st)) = helps st"
  using helps_solicitar [of QTitulo st]
  by (cases "solicitar QTitulo st") (simp add: pedir_titulo_def)

lemma helps_pedir_lugar: "helps (snd (pedir_lugar st)) = helps st"
  using helps_solicitar [of QLugar st]
  by (cases "solicitar QLugar st") (simp add: pedir_lugar_def)

lemma helps_pedir_duracion: "helps (snd (pedir_duracion st)) = helps st"
  using helps_solicitar [of QDuracion st]
  by (cases "solicitar QDuracion st") (simp add: pedir_duracion_def split: option.splits)

lemma helps_fill_start: "helps (snd (fill_start dp ev st)) = helps st"
  using helps_pedir_fecha_hora [of dp st]
  by (cases "pedir_fecha_hora dp st") (simp add: fill_start_def)

lemma helps_fill_title: "helps (snd (fill_title ev st)) = helps st"
  using helps_pedir_titulo [of st]
  by (cases "pedir_titulo st") (simp add: fill_title_def)

lemma helps_fill_location: "helps (snd (fill_location ev st)) = helps st"
  using helps_pedir_lugar [of st]
  by (cases "pedir_lugar st") (simp add: fill_location_def)

lemma helps_fill_duration: "helps (snd (fill_duration ev st)) = helps st"
  using helps_pedir_duracion [of st]
  by (cases "pedir_duracion st") (simp add: fill_duration_def)

lemma helps_completar_datos: "helps (snd (completar_datos dp ev st)) = helps st"
proof -
  obtain ev1 st1 where 1: "fill_start dp ev st = (ev1, st1)" by (cases "fill_start dp ev st")
  obtain ev2 st2 where 2: "fill_title ev1 st1 = (ev2, st2)" by (cases "fill_title ev1 st1")
  obtain ev3 st3 where 3: "fill_location ev2 st2 = (ev3, st3)" by (cases "fill_location ev2 st2")
  have "helps st1 = helps st" using helps_fill_start [of dp ev st] 1 by simp
  moreover have "helps st2 = helps st1" using helps_fill_title [of ev1 st1] 2 by simp
  moreover have "helps st3 = helps st2" using helps_fill_location [of ev2 st2] 3 by simp
  moreover have "helps (snd (fill_duration ev3 st3)) = helps st3"
    by (rule helps_fill_duration)
  ultimately show ?thesis
    by (simp add: completar_datos_def 1 2 3)
qed

lemma helps_confirmar_evento:
  assumes "confirmar_evento ev st = (ok, st')"
  shows "helps st' = helps st"
proof -
  obtain r s1 where s: "solicitar QConfirm (emit (Print (MsgResumen ev)) st) = (r, s1)"
    by (cases "solicitar QConfirm (emit (Print (MsgResumen ev)) st)")
  from helps_solicitar [OF s] have "helps s1 = helps st"
    by (simp add: helps_emit)
  with assms s show ?thesis
    by (auto simp: confirmar_evento_def)
qed

lemma helps_do_create: "helps (do_create e ev st) = helps st"
  by (simp add: do_create_def Let_def flujo_notificacion_def helps_emit split: sum.splits)

lemma creates_observed: "filter is_create (observed st) = filter is_create (trace st)"
proof -
  have "\<And>a. (notable a \<and> is_create a) = is_create a"
  proof -
    fix a show "(notable a \<and> is_create a) = is_create a" by (cases a) simp_all
  qed
  then show ?thesis by (simp add: observed_def)
qed

text \<open>
  Claim C9, as the code has it: an utterance classified \<open>Unknown\<close> never ends
  the session with an exception and never lists; when the resolver finds no date in it, the
  only effect is the help message. When the resolver finds a date, the utterance is retried
  as a creation: with \<open>ev\<close> the draft after the fallback pass and \<open>ok\<close> the answer to
  the confirmation (true exactly when the reply starts with \<open>s\<close>), the event \<open>ev\<close> is
  created when the draft is complete and \<open>ok\<close> holds, and the help message is printed,
  once, in every other case and in no case with a creation.
\<close>

theorem unknown_intent_outcome:
  assumes "detect_intent (resolve e) texto = Unknown"
  shows "fst (handle_text e texto st) = Continue \<and>
         (resolve e texto = None \<longrightarrow>
            handle_text e texto st = (Continue, emit (Print MsgAyuda) st)) \<and>
         (\<forall>s t. CallList s t \<in> set (trace (snd (handle_text e texto st))) \<longrightarrow>
            CallList s t \<in> set (trace st)) \<and>
         (\<forall>ev st1 ok st2.
            completar_datos (resolve e) (parse_event_from_text (resolve e) texto) st = (ev, st1) \<and>
            confirmar_evento ev st1 = (ok, st2) \<longrightarrow>
              (resolve e texto \<noteq> None \<longrightarrow>
                 handle_text e texto st =
                   (if start ev = None \<or> \<not> truthy_str (title ev)
                      then (Continue, emit (Print MsgAyuda) st1)
                    else if \<not> ok then (Continue, emit (Print MsgAyuda) st2)
                    else (Continue, do_create e ev st2))) \<and>
              (\<exists>r. observed st2 = observed st @ [Ask QConfirm r] \<and>
                    ok = startswith (lower r) ''s'') \<and>
              filter is_create (trace (snd (handle_text e texto st))) =
                filter is_create (trace st) @
                  (if resolve e texto \<noteq> None \<and> start ev \<noteq> None \<and> truthy_str (title ev) \<and> ok
                   then [CallCreate ev] else []) \<and>
              helps (snd (handle_text e texto st)) =
                helps st +
                  (if resolve e texto \<noteq> None \<and> start ev \<noteq> None \<and> truthy_str (title ev) \<and> ok
                   then 0 else 1))"
proof -
  have h: "handle_text e texto st = unknown_flow e texto st"
    using assms by (simp add: handle_text_def)
  have n: "resolve e texto = None \<longrightarrow> unknown_flow e texto st = (Continue, emit (Print MsgAyuda) st)"
    by (simp add: unknown_flow_def Let_def parse_start)
  have first: "fst (handle_text e texto st) = Continue \<and>
         (resolve e texto = None \<longrightarrow>
            handle_text e texto st = (Continue, emit (Print MsgAyuda) st)) \<and>
         (\<forall>s t. CallList s t \<in> set (trace (snd (handle_text e texto st))) \<longrightarrow>
            CallList s t \<in> set (trace st))"
    using n h unknown_flow_shape [of e texto st] unknown_flow_no_list [of _ _ e texto st]
    by auto
  have second: "(resolve e texto \<noteq> None \<longrightarrow>
                 handle_text e texto st =
                   (if start ev = None \<or> \<not> truthy_str (title ev)
                      then (Continue, emit (Print MsgAyuda) st1)
                    else if \<not> ok then (Continue, emit (Print MsgAyuda) st2)
                    else (Continue, do_create e ev st2))) \<and>
              (\<exists>r. observed st2 = observed st @ [Ask QConfirm r] \<and>
                    ok = startswith (lower r) ''s'') \<and>
              filter is_create (trace (snd (handle_text e texto st))) =
                filter is_create (trace st) @
                  (if resolve e texto \<noteq> None \<and> start ev \<noteq> None \<and> truthy_str (title ev) \<and> ok
                   then [CallCreate ev] else []) \<and>
              helps (snd (handle_text e texto st)) =
                helps st +
                  (if resolve e texto \<noteq> None \<and> start ev \<noteq> None \<and> truthy_str (title ev) \<and> ok
                   then 0 else 1)"
    if cd: "completar_datos (resolve e) (parse_event_from_text (resolve e) texto) st = (ev, st1)"
      and ce: "confirmar_evento ev st1 = (ok, st2)"
    for ev st1 ok st2
  proof -
    note r = unknown_flow_result [OF cd ce]
    have o1: "observed st1 = observed st"
      using observed_completar_datos [of "resolve e" "parse_event_from_text (resolve e) texto" st] cd
      by simp
    obtain rr where o2: "observed st2 = observed st1 @ [Ask QConfirm rr]"
      and ok: "ok = startswith (lower rr) ''s''"
      using observed_confirmar_evento [OF ce] by blast
    have h1: "helps st1 = helps st"
      using helps_completar_datos [of "resolve e" "parse_event_from_text (resolve e) texto" st] cd
      by simp
    have h2: "helps st2 = helps st"
      using helps_confirmar_evento [OF ce] h1 by simp
    have c1: "filter is_create (trace st1) = filter is_create (trace st)"
      using o1 creates_observed [of st1] creates_observed [of st] by simp
    have c2: "filter is_create (trace st2) = filter is_create (trace st)"
      using o1 o2 creates_observed [of st2] creates_observed [of st] by simp
    have c3: "filter is_create (trace (do_create e ev st2)) =
              filter is_create (trace st) @ [CallCreate ev]"
      using observed_do_create [of e ev st2] o1 o2
        creates_observed [of "do_create e ev st2"] creates_observed [of st] by simp
    have A: "resolve e texto \<noteq> None \<longrightarrow>
                 handle_text e texto st =
                   (if start ev = None \<or> \<not> truthy_str (title ev)
                      then (Continue, emit (Print MsgAyuda) st1)
                    else if \<not> ok then (Continue, emit (Print MsgAyuda) st2)
                    else (Continue, do_create e ev st2))"
      unfolding h r by simp
    have B: "\<exists>r. observed st2 = observed st @ [Ask QConfirm r] \<and> ok = startswith (lower r) ''s''"
      using o1 o2 ok by auto
    have C: "filter is_create (trace (snd (handle_text e texto st))) =
                filter is_create (trace st) @
                  (if resolve e texto \<noteq> None \<and> start ev \<noteq> None \<and> truthy_str (title ev) \<and> ok
                   then [CallCreate ev] else [])"
      unfolding h r using c1 c2 c3 by simp
    have D: "helps (snd (handle_text e texto st)) =
                helps st +
                  (if resolve e texto \<noteq> None \<and> start ev \<noteq> None \<and> truthy_str (title ev) \<and> ok
                   then 0 else 1)"
      unfolding h r using h1 h2 by (simp add: helps_emit helps_do_create)
    from A B C D show ?thesis by blast
  qed
  from first second show ?thesis by blast
qed

theorem unknown_intent_outcome_witness:
  "detect_intent (resolve example_env) ''hola'' = Unknown \<and>
   resolve example_env ''hola'' = None \<and>
   fst (handle_text example_env ''hola'' (fresh [])) = Continue \<and>
   handle_text example_env ''hola'' (fresh []) = (Continue, emit (Print MsgAyuda) (fresh [])) \<and>
   CallList (mk_datetime 2024 6 10 0 0) (mk_datetime 2024 6 11 0 0) \<in>
     set (trace (snd (handle_text example_env ''hola''
       (emit (CallList (mk_datetime 2024 6 10 0 0) (mk_datetime 2024 6 11 0 0)) (fresh []))))) \<and>
   CallList (mk_datetime 2024 6 10 0 0) (mk_datetime 2024 6 11 0 0) \<in>
     set (trace (emit (CallList (mk_datetime 2024 6 10 0 0) (mk_datetime 2024 6 11 0 0)) (fresh []))) \<and>
   detect_intent (resolve example_env) ''7pm'' = Unknown \<and>
   filter is_create (trace (snd (handle_text example_env ''7pm''
     (fresh [''oficina'', '''', ''s''])))) = [CallCreate confirmed_draft] \<and>
   helps (snd (handle_text example_env ''7pm'' (fresh [''oficina'', '''', ''s'']))) = 0 \<and>
   filter is_create (trace (snd (handle_text example_env ''7pm''
     (fresh [''oficina'', '''', ''n''])))) = [] \<and>
   helps (snd (handle_text example_env ''7pm'' (fresh [''oficina'', '''', ''n'']))) = 1"
proof -
  have a: "detect_intent (resolve example_env) ''hola'' = Unknown"
    by code_simp
  have b: "resolve example_env ''hola'' = None"
    by code_simp
  have c: "CallList (mk_datetime 2024 6 10 0 0) (mk_datetime 2024 6 11 0 0) \<in>
     set (trace (emit (CallList (mk_datetime 2024 6 10 0 0) (mk_datetime 2024 6 11 0 0)) (fresh [])))"
    by simp
  have a7: "detect_intent (resolve example_env) ''7pm'' = Unknown"
    by code_simp
  have cds: "completar_datos (resolve example_env)
               (parse_event_from_text (resolve example_env) ''7pm'')
               (fresh [''oficina'', '''', ''s'']) =
             (confirmed_draft,
              \<lparr>inputs = [''s''], trace = [Ask QLugar ''oficina'', Ask QDuracion '''']\<rparr>)"
    by code_simp
  have ces: "confirmar_evento confirmed_draft
               \<lparr>inputs = [''s''], trace = [Ask QLugar ''oficina'', Ask QDuracion '''']\<rparr> =
             (True, \<lparr>inputs = [], trace = [Ask QLugar ''oficina'', Ask QDuracion '''',
                       Print (MsgResumen confirmed_draft), Ask QConfirm ''s'']\<rparr>)"
    by code_simp
  have cdn: "completar_datos (resolve example_env)
               (parse_event_from_text (resolve example_env) ''7pm'')
               (fresh [''oficina'', '''', ''n'']) =
             (confirmed_draft,
              \<lparr>inputs = [''n''], trace = [Ask QLugar ''oficina'', Ask QDuracion '''']\<rparr>)"
    by code_simp
  have cen: "confirmar_evento confirmed_draft
               \<lparr>inputs = [''n''], trace = [Ask QLugar ''oficina'', Ask QDuracion '''']\<rparr> =
             (False, \<lparr>inputs = [], trace = [Ask QLugar ''oficina'', Ask QDuracion '''',
                       Print (MsgResumen confirmed_draft), Ask QConfirm ''n'']\<rparr>)"
    by code_simp
  have d: "resolve example_env ''7pm'' \<noteq> None" "start confirmed_draft \<noteq> None"
    "truthy_str (title confirmed_draft)"
    by code_simp+
  have z: "helps (fresh ins) = 0" "filter is_create (trace (fresh ins)) = []" for ins
    by (simp_all add: helps_def fresh_def)
  note s = unknown_intent_outcome [OF a7, of "fresh [''oficina'', '''', ''s'']",
      THEN conjunct2, THEN conjunct2, THEN conjunct2, rule_format, OF conjI [OF cds ces]]
  note n = unknown_intent_outcome [OF a7, of "fresh [''oficina'', '''', ''n'']",
      THEN conjunct2, THEN conjunct2, THEN conjunct2, rule_format, OF conjI [OF cdn cen]]
  have s1: "filter is_create (trace (snd (handle_text example_env ''7pm''
              (fresh [''oficina'', '''', ''s''])))) = [CallCreate confirmed_draft]"
    using s [THEN conjunct2, THEN conjunct2, THEN conjunct1] d by (simp add: z)
  have s2: "helps (snd (handle_text example_env ''7pm'' (fresh [''oficina'', '''', ''s'']))) = 0"
    using s [THEN conjunct2, THEN conjunct2, THEN conjunct2] d by (simp add: z)
  have n1: "filter is_create (trace (snd (handle_text example_env ''7pm''
              (fresh [''oficina'', '''', ''n''])))) = []"
    using n [THEN conjunct2, THEN conjunct2, THEN conjunct1] by (simp add: z)
  have n2: "helps (snd (handle_text example_env ''7pm'' (fresh [''oficina'', '''', ''n'']))) = 1"
    using n [THEN conjunct2, THEN conjunct2, THEN conjunct2] by (simp add: z)
  have h: "fst (handle_text example_env ''hola'' (fresh [])) = Continue \<and>
     handle_text example_env ''hola'' (fresh []) = (Continue, emit (Print MsgAyuda) (fresh [])) \<and>
     CallList (mk_datetime 2024 6 10 0 0) (mk_datetime 2024 6 11 0 0) \<in>
       set (trace (snd (handle_text example_env ''hola''
         (emit (CallList (mk_datetime 2024 6 10 0 0) (mk_datetime 2024 6 11 0 0)) (fresh [])))))"
    using a b c unknown_intent_outcome [OF a, of "fresh []"]
      unknown_intent_outcome [OF a,
        of "emit (CallList (mk_datetime 2024 6 10 0 0) (mk_datetime 2024 6 11 0 0)) (fresh [])"]
    by simp
  from a b c a7 s1 s2 n1 n2 h show ?thesis by blast
qed

text \<open>
  Claim C9 as stated fails: \<open>7pm\<close> is classified \<open>Unknown\<close>, the resolver
  finds a time in it, and after the user confirms an event is created.
\<close>

theorem unknown_intent_counterexample:
  "detect_intent (resolve example_env) ''7pm'' = Unknown \<and>
   CallCreate confirmed_draft \<in>
     set (trace (snd (handle_text example_env ''7pm'' (fresh [''oficina'', '''', ''s'']))))"
proof -
  have "detect_intent (resolve example_env) ''7pm'' = Unknown"
    by code_simp
  then show ?thesis
    by (simp add: run_accept)
qed

section \<open>The creation gate\<close>

lemma create_flow_creates:
  assumes cd: "completar_datos (resolve e) (parse_event_from_text (resolve e) texto) st = (ev, st1)"
    and clean: "observed st = []"
  shows "CallCreate d \<in> set (trace (snd (create_flow e texto st))) \<longleftrightarrow>
         d = ev \<and> start ev \<noteq> None \<and> truthy_str (title ev) \<and> fst (confirmar_evento ev st1)"
proof -
  obtain ok st2 where ce: "confirmar_evento ev st1 = (ok, st2)"
    by (cases "confirmar_evento ev st1")
  have o1: "observed st1 = []"
    using observed_completar_datos [of "resolve e" "parse_event_from_text (resolve e) texto" st]
      cd clean by simp
  obtain r where o2: "observed st2 = observed st1 @ [Ask QConfirm r]"
    using observed_confirmar_evento [OF ce] by blast
  have "CallCreate d \<in> set (trace (snd (create_flow e texto st))) \<longleftrightarrow>
        CallCreate d \<in> set (observed (snd (create_flow e texto st)))"
    by (simp add: mem_observed)
  also have "\<dots> \<longleftrightarrow> d = ev \<and> start ev \<noteq> None \<and> truthy_str (title ev) \<and> ok"
    unfolding create_flow_result [OF cd ce]
    using o1 o2 by (auto simp: observed_emit observed_do_create)
  finally show ?thesis
    using ce by simp
qed

lemma handle_text_creates_complete:
  assumes "CallCreate d \<in> set (trace (snd (handle_text e texto (fresh ins))))"
  shows "start d \<noteq> None \<and> truthy_str (title d)"
proof -
  obtain X where X: "observed (snd (handle_text e texto (fresh ins))) = X" and sh: "flow_shape X"
    using handle_text_shape [of e texto "fresh ins"] by auto
  have "CallCreate d \<in> set (observed (snd (handle_text e texto (fresh ins))))"
    using assms by (simp add: mem_observed)
  then have "CallCreate d \<in> set X"
    using X by simp
  with sh show ?thesis
    by (auto simp: flow_shape_def)
qed

text \<open>
  Claim C5, as the code has it: after the fallback pass, a draft that lacks start or
  title ends the creation flow with the message that essential data is missing, as a
  normal outcome; the creation is called exactly when start and title are present and the
  user confirms, and then with that draft; and whatever the utterance, the creation is
  never called with a draft that lacks start or title.
\<close>

theorem create_gate:
  assumes "completar_datos (resolve e) (parse_event_from_text (resolve e) texto) (fresh ins) =
             (ev, st1)"
  shows "(start ev = None \<or> \<not> truthy_str (title ev) \<longrightarrow>
            create_flow e texto (fresh ins) = (Continue, emit (Print MsgFaltan) st1)) \<and>
         ((\<exists>d. CallCreate d \<in> set (trace (snd (create_flow e texto (fresh ins))))) \<longleftrightarrow>
            start ev \<noteq> None \<and> truthy_str (title ev) \<and> fst (confirmar_evento ev st1)) \<and>
         (\<forall>d. CallCreate d \<in> set (trace (snd (create_flow e texto (fresh ins)))) \<longrightarrow> d = ev) \<and>
         (\<forall>d. CallCreate d \<in> set (trace (snd (handle_text e texto (fresh ins)))) \<longrightarrow>
            start d \<noteq> None \<and> truthy_str (title d))"
proof -
  have 1: "start ev = None \<or> \<not> truthy_str (title ev) \<longrightarrow>
            create_flow e texto (fresh ins) = (Continue, emit (Print MsgFaltan) st1)"
    using assms by (simp add: create_flow_def)
  have 2: "\<And>d. CallCreate d \<in> set (trace (snd (create_flow e texto (fresh ins)))) \<longleftrightarrow>
         d = ev \<and> start ev \<noteq> None \<and> truthy_str (title ev) \<and> fst (confirmar_evento ev st1)"
    using create_flow_creates [OF assms] by simp
  show ?thesis
    using 1 2 handle_text_creates_complete [of _ e texto ins] by blast
qed

text \<open>
  Claim C5 as stated fails in its "if" direction: for \<open>crear cita\<close> the completed
  draft has start and title, classification is \<open>Create\<close>, the user answers \<open>n\<close>, and no
  creation is called.
\<close>

theorem create_gate_counterexample:
  "start (fst (completar_datos example_resolver
                 (parse_event_from_text example_resolver ''crear cita'')
                 (fresh [''7pm'', ''oficina'', '''', ''n'']))) \<noteq> None \<and>
   truthy_str (title (fst (completar_datos example_resolver
                 (parse_event_from_text example_resolver ''crear cita'')
                 (fresh [''7pm'', ''oficina'', '''', ''n''])))) \<and>
   detect_intent example_resolver ''crear cita'' = Create \<and>
   \<not> list_ex is_create
       (trace (snd (handle_text example_env ''crear cita''
                      (fresh [''7pm'', ''oficina'', '''', ''n'']))))"
  by code_simp

theorem create_gate_witness:
  "start (fst (completar_datos (resolve example_env)
                 (parse_event_from_text (resolve example_env) ''crear cita'') (fresh []))) = None \<and>
   create_flow example_env ''crear cita'' (fresh []) =
     (Continue, emit (Print MsgFaltan)
        (snd (completar_datos (resolve example_env)
                (parse_event_from_text (resolve example_env) ''crear cita'') (fresh [])))) \<and>
   CallCreate confirmed_draft \<in>
     set (trace (snd (handle_text example_env ''7pm'' (fresh [''oficina'', '''', ''s''])))) \<and>
   start confirmed_draft \<noteq> None \<and> truthy_str (title confirmed_draft)"
proof -
  have a: "start (fst (completar_datos (resolve example_env)
                  (parse_event_from_text (resolve example_env) ''crear cita'') (fresh []))) = None"
    by code_simp
  have b: "CallCreate confirmed_draft \<in>
     set (trace (snd (handle_text example_env ''7pm'' (fresh [''oficina'', '''', ''s'']))))"
    by (simp add: run_accept)
  have c: "completar_datos (resolve example_env)
             (parse_event_from_text (resolve example_env) ''crear cita'') (fresh []) =
           (fst (completar_datos (resolve example_env)
                  (parse_event_from_text (resolve example_env) ''crear cita'') (fresh [])),
            snd (completar_datos (resolve example_env)
                  (parse_event_from_text (resolve example_env) ''crear cita'') (fresh [])))"
    by simp
  have d: "completar_datos (resolve example_env)
             (parse_event_from_text (resolve example_env) ''7pm'') (fresh [''oficina'', '''', ''s'']) =
           (fst (completar_datos (resolve example_env)
                  (parse_event_from_text (resolve example_env) ''7pm'')
                  (fresh [''oficina'', '''', ''s''])),
            snd (completar_datos (resolve example_env)
                  (parse_event_from_text (resolve example_env) ''7pm'')
                  (fresh [''oficina'', '''', ''s''])))"
    by simp
  show ?thesis
    using a b create_gate [OF c] create_gate [OF d] by blast
qed

section \<open>The default duration\<close>

lemma pedir_duracion_result:
  "fst (pedir_duracion st) = None \<or> (\<exists>v. fst (pedir_duracion st) = Some v \<and> 0 < v)"
  by (cases "solicitar QDuracion st")
     (auto simp: pedir_duracion_def split: option.splits)

lemma duration_fill_start: "duration_min (fst (fill_start dp ev st)) = duration_min ev"
  by (cases "pedir_fecha_hora dp st") (simp add: fill_start_def)

lemma duration_fill_title: "duration_min (fst (fill_title ev st)) = duration_min ev"
  by (cases "pedir_titulo st") (simp add: fill_title_def)

lemma duration_fill_location: "duration_min (fst (fill_location ev st)) = duration_min ev"
  by (cases "pedir_lugar st") (simp add: fill_location_def)

lemma duration_fill_duration:
  "duration_min (fst (fill_duration ev st)) =
     (if truthy_int (duration_min ev) then duration_min ev
      else if truthy_int (fst (pedir_duracion st)) then fst (pedir_duracion st)
      else Some DEFAULT_DURATION_MIN)"
  by (cases "pedir_duracion st") (simp add: fill_duration_def)

lemma completar_datos_duration:
  "\<exists>ev3 st3. duration_min ev3 = duration_min ev \<and>
     completar_datos dp ev st = fill_duration ev3 st3"
proof -
  obtain ev1 st1 where 1: "fill_start dp ev st = (ev1, st1)" by (cases "fill_start dp ev st")
  obtain ev2 st2 where 2: "fill_title ev1 st1 = (ev2, st2)" by (cases "fill_title ev1 st1")
  obtain ev3 st3 where 3: "fill_location ev2 st2 = (ev3, st3)" by (cases "fill_location ev2 st2")
  have "duration_min ev1 = duration_min ev" using duration_fill_start [of dp ev st] 1 by simp
  moreover have "duration_min ev2 = duration_min ev1" using duration_fill_title [of ev1 st1] 2 by simp
  moreover have "duration_min ev3 = duration_min ev2"
    using duration_fill_location [of ev2 st2] 3 by simp
  moreover have "completar_datos dp ev st = fill_duration ev3 st3"
    by (simp add: completar_datos_def 1 2 3)
  ultimately show ?thesis by auto
qed

text \<open>
  Claim C6, as the code has it: when the duration is unset (absent or zero) and the
  duration prompt yields nothing, the fallback pass itself writes the default 60 into
  \<open>duration_min\<close>; after the pass the duration is always set, and a duration that was
  set before is kept; \<open>create_event\<close> takes as end the start plus the duration (or the
  default) when no end is given.
\<close>

theorem default_duration:
  "(\<not> truthy_int (duration_min ev) \<and> fst (pedir_duracion st) = None \<longrightarrow>
      duration_min (fst (fill_duration ev st)) = Some DEFAULT_DURATION_MIN) \<and>
   truthy_int (duration_min (fst (completar_datos dp ev st))) \<and>
   (truthy_int (duration_min ev) \<longrightarrow>
      duration_min (fst (completar_datos dp ev st)) = duration_min ev) \<and>
   (start ev = Some s \<and> ev_end ev = None \<and>
    add_delta s 0 (or_default (duration_min ev)) = Some t \<longrightarrow>
      (\<exists>b. event_body_of ev = Inr b \<and> body_start b = s \<and> body_end b = t))"
proof -
  obtain ev3 st3 where d: "duration_min ev3 = duration_min ev"
    and c: "completar_datos dp ev st = fill_duration ev3 st3"
    using completar_datos_duration [of ev dp st] by blast
  have 1: "\<not> truthy_int (duration_min ev) \<and> fst (pedir_duracion st) = None \<longrightarrow>
      duration_min (fst (fill_duration ev st)) = Some DEFAULT_DURATION_MIN"
    by (simp add: duration_fill_duration truthy_int_def)
  have 2: "truthy_int (duration_min (fst (completar_datos dp ev st)))"
    unfolding c duration_fill_duration
    by (simp add: truthy_int_def DEFAULT_DURATION_MIN_def)
  have 3: "truthy_int (duration_min ev) \<longrightarrow>
      duration_min (fst (completar_datos dp ev st)) = duration_min ev"
    unfolding c duration_fill_duration using d by simp
  have 4: "start ev = Some s \<and> ev_end ev = None \<and>
    add_delta s 0 (or_default (duration_min ev)) = Some t \<longrightarrow>
      (\<exists>b. event_body_of ev = Inr b \<and> body_start b = s \<and> body_end b = t)"
    by (simp add: event_body_of_def)
  show ?thesis
    using 1 2 3 4 by blast
qed

text \<open>
  Claim C6 as stated fails: a draft with everything but the duration, at end of
  input, leaves the fallback pass with \<open>duration_min = 60\<close>.
\<close>

theorem default_duration_counterexample:
  "duration_min example_draft = None \<and>
   duration_min (fst (completar_datos example_resolver example_draft (fresh []))) =
     Some DEFAULT_DURATION_MIN"
  by code_simp

theorem default_duration_witness:
  "\<not> truthy_int (duration_min example_draft) \<and> fst (pedir_duracion (fresh [])) = None \<and>
   duration_min (fst (fill_duration example_draft (fresh []))) = Some DEFAULT_DURATION_MIN \<and>
   truthy_int (duration_min (example_draft\<lparr>duration_min := Some 45\<rparr>)) \<and>
   duration_min (fst (completar_datos example_resolver
                        (example_draft\<lparr>duration_min := Some 45\<rparr>) (fresh []))) = Some 45 \<and>
   start example_draft = Some (mk_datetime 2024 6 11 15 0) \<and> ev_end example_draft = None \<and>
   add_delta (mk_datetime 2024 6 11 15 0) 0 (or_default (duration_min example_draft)) =
     Some (mk_datetime 2024 6 11 16 0) \<and>
   (\<exists>b. event_body_of example_draft = Inr b \<and> body_start b = mk_datetime 2024 6 11 15 0 \<and>
        body_end b = mk_datetime 2024 6 11 16 0)"
proof -
  have a: "\<not> truthy_int (duration_min example_draft)" "fst (pedir_duracion (fresh [])) = None"
    by code_simp+
  have b: "truthy_int (duration_min (example_draft\<lparr>duration_min := Some 45\<rparr>))"
    by code_simp
  have c: "start example_draft = Some (mk_datetime 2024 6 11 15 0)" "ev_end example_draft = None"
    "add_delta (mk_datetime 2024 6 11 15 0) 0 (or_default (duration_min example_draft)) =
       Some (mk_datetime 2024 6 11 16 0)"
    by code_simp+
  have d: "duration_min (example_draft\<lparr>duration_min := Some 45\<rparr>) = Some 45"
    by simp
  show ?thesis
    using a b c d
      default_duration [of example_draft "fresh []" example_resolver
        "mk_datetime 2024 6 11 15 0" "mk_datetime 2024 6 11 16 0"]
      default_duration [of "example_draft\<lparr>duration_min := Some 45\<rparr>" "fresh []" example_resolver]
    by simp
qed

section \<open>Listing ranges\<close>

lemma midnight_plus_days: "midnight (plus_days d n) = plus_days (midnight d) n"
  by (simp add: midnight_def plus_days_def)






section \<open>Ordered choice, greedy repetition and the scan\<close>

text \<open>
  What a successful ordered choice, a successful greedy repetition and a successful scan
  say about the input, and the value of a greedy repetition whose continuation fails on
  every input that begins with a character of the class.
\<close>

lemma first_some_None_iff: "first_some f xs = None \<longleftrightarrow> (\<forall>x\<in>set xs. f x = None)"
  by (induction xs) (auto split: option.splits)


lemma takeWhile_all_nth:
  assumes "n < length (takeWhile P s)"
  shows "n < length s \<and> P (s ! n)"
proof -
  have "takeWhile P s ! n \<in> set (takeWhile P s)"
    using assms by simp
  then have "P (takeWhile P s ! n)"
    by (rule set_takeWhileD [THEN conjunct2])
  moreover have "takeWhile P s ! n = s ! n"
    using assms by (rule takeWhile_nth)
  moreover have "length (takeWhile P s) \<le> length s"
    by (rule length_takeWhile_le)
  ultimately show ?thesis
    using assms by simp
qed


lemma rep_greedy_exact:
  assumes stop: "\<And>m r. r \<noteq> [] \<Longrightarrow> P (hd r) \<Longrightarrow> k m r = None"
  shows "rep_greedy P lo hi s k =
           (if lo \<le> length (takeWhile P s) \<and>
               (case hi of None \<Rightarrow> True | Some h \<Rightarrow> length (takeWhile P s) \<le> h)
            then k (takeWhile P s) (dropWhile P s) else None)"
proof -
  let ?run = "length (takeWhile P s)"
  have short: "\<And>n. n < ?run \<Longrightarrow> k (take n s) (drop n s) = None"
  proof -
    fix n assume n: "n < ?run"
    then have "n < length s" "P (s ! n)"
      using takeWhile_all_nth [of n P s] by simp_all
    then have "drop n s \<noteq> []" "P (hd (drop n s))"
      by (simp_all add: hd_drop_conv_nth)
    then show "k (take n s) (drop n s) = None"
      by (rule stop)
  qed
  have full: "k (take ?run s) (drop ?run s) = k (takeWhile P s) (dropWhile P s)"
    by (simp add: takeWhile_eq_take [symmetric] dropWhile_eq_drop [symmetric])
  show ?thesis
  proof (cases "lo \<le> ?run \<and> (case hi of None \<Rightarrow> True | Some h \<Rightarrow> ?run \<le> h)")
    case True
    then have top: "(case hi of None \<Rightarrow> ?run | Some h \<Rightarrow> min h ?run) = ?run"
      by (cases hi) auto
    have l: "rev [lo ..< Suc ?run] = ?run # rev [lo ..< ?run]"
      using True by simp
    have rest: "first_some (\<lambda>n. k (take n s) (drop n s)) (rev [lo ..< ?run]) = None"
      using short by (simp add: first_some_None_iff)
    show ?thesis
      using True full rest
      by (simp add: rep_greedy_def Let_def top l del: upt_Suc split: option.splits)
  next
    case False
    have "\<forall>n\<in>set (rev [lo ..< Suc (case hi of None \<Rightarrow> ?run | Some h \<Rightarrow> min h ?run)]).
            k (take n s) (drop n s) = None"
    proof
      fix n assume "n \<in> set (rev [lo ..< Suc (case hi of None \<Rightarrow> ?run | Some h \<Rightarrow> min h ?run)])"
      then have "n < ?run"
        using False by (cases hi) auto
      then show "k (take n s) (drop n s) = None"
        by (rule short)
    qed
    then have "rep_greedy P lo hi s k = None"
      by (simp add: rep_greedy_def Let_def first_some_None_iff del: upt_Suc)
    then show ?thesis
      by (simp only: if_not_P [OF False])
  qed
qed

lemma lower_char_digit_space:
  assumes "is_digit c \<or> is_space c"
  shows "lower_char c = c"
  using assms by (auto simp: is_digit_def is_space_def lower_char_def)

lemma digit_not_space: "is_digit c \<Longrightarrow> \<not> is_space c"
  by (auto simp: is_digit_def is_space_def)

lemma lit_ci_Some:
  assumes "lit_ci w r = Some x"
  shows "length w \<le> length r \<and> lower (take (length w) r) = w \<and> x = drop (length w) r"
  using assms by (auto simp: lit_ci_def split: if_splits)

lemma lit_ci_stop:
  assumes "w \<noteq> []" and "\<forall>c\<in>set w. \<not> is_digit c \<and> \<not> is_space c"
    and "r \<noteq> []" and "is_digit (hd r) \<or> is_space (hd r)"
  shows "lit_ci w r = None"
proof (rule ccontr)
  assume "lit_ci w r \<noteq> None"
  then obtain x where "lit_ci w r = Some x" by auto
  then have l: "length w \<le> length r" and e: "lower (take (length w) r) = w"
    using lit_ci_Some by blast+
  from assms(1,3) obtain a w' b r' where w: "w = a # w'" and r: "r = b # r'"
    by (cases w; cases r) auto
  from e w r have "a = lower_char b"
    by (simp add: lower_def)
  then have "a = b"
    using assms(4) r lower_char_digit_space by simp
  then show False
    using assms(2,4) w r by auto
qed

text \<open>
  The pattern \<open>(\d{1,k})\s*w\<close> at one position: the whole run of digits there must have
  between one and \<open>k\<close> digits and be followed, after whitespace, by the unit word.
\<close>

lemma num_unit_exact:
  assumes w: "w \<noteq> []" "\<forall>c\<in>set w. \<not> is_digit c \<and> \<not> is_space c"
  shows "num_unit_at k w s =
           (if 1 \<le> length (takeWhile is_digit s) \<and> length (takeWhile is_digit s) \<le> k \<and>
               lit_ci w (dropWhile is_space (dropWhile is_digit s)) \<noteq> None
            then Some (takeWhile is_digit s) else None)"
proof -
  have inner: "rep_greedy is_space 0 None r
                 (\<lambda>_ r'. case lit_ci w r' of None \<Rightarrow> None | Some _ \<Rightarrow> Some d) =
               (case lit_ci w (dropWhile is_space r) of None \<Rightarrow> None | Some _ \<Rightarrow> Some d)"
    for d :: pystr and r
  proof -
    have "\<And>(m :: pystr) r'. r' \<noteq> [] \<Longrightarrow> is_space (hd r') \<Longrightarrow>
            (case lit_ci w r' of None \<Rightarrow> None | Some _ \<Rightarrow> Some d) = None"
      using lit_ci_stop [OF w] by simp
    then show ?thesis
      by (subst rep_greedy_exact) simp_all
  qed
  have outer_stop: "(case lit_ci w (dropWhile is_space r) of None \<Rightarrow> None | Some _ \<Rightarrow> Some d) = None"
    if r: "r \<noteq> []" "is_digit (hd r)" for d :: pystr and r :: pystr
  proof -
    from r have "dropWhile is_space r = r"
      by (cases r) (auto dest: digit_not_space)
    moreover have "lit_ci w r = None"
      using lit_ci_stop [OF w] r by simp
    ultimately show ?thesis
      by simp
  qed
  have "num_unit_at k w s =
          rep_greedy is_digit 1 (Some k) s
            (\<lambda>d r. case lit_ci w (dropWhile is_space r) of None \<Rightarrow> None | Some _ \<Rightarrow> Some d)"
    by (simp add: num_unit_at_def inner)
  also have "\<dots> =
          (if 1 \<le> length (takeWhile is_digit s) \<and> length (takeWhile is_digit s) \<le> k
           then (case lit_ci w (dropWhile is_space (dropWhile is_digit s)) of
                   None \<Rightarrow> None | Some _ \<Rightarrow> Some (takeWhile is_digit s))
           else None)"
    using outer_stop by (subst rep_greedy_exact) simp_all
  finally show ?thesis
    by (auto split: option.splits)
qed

lemma lit_ci_append_digit:
  assumes w: "\<forall>c\<in>set w. \<not> is_digit c" and rest: "rest \<noteq> []" "is_digit (hd rest)"
  shows "(lit_ci w (z @ rest) = None) = (lit_ci w z = None)"
proof (cases "length w \<le> length z")
  case True
  then show ?thesis by (simp add: lit_ci_def)
next
  case False
  then have zn: "lit_ci w z = None" by (simp add: lit_ci_def)
  have "lit_ci w (z @ rest) = None"
  proof (rule ccontr)
    assume "lit_ci w (z @ rest) \<noteq> None"
    then obtain x where "lit_ci w (z @ rest) = Some x" by auto
    then have l: "length w \<le> length (z @ rest)"
      and e: "lower (take (length w) (z @ rest)) = w"
      using lit_ci_Some by blast+
    have i: "length z < length w" using False by simp
    obtain a rest' where r: "rest = a # rest'" using rest(1) by (cases rest) auto
    have "w ! length z = lower (take (length w) (z @ rest)) ! length z"
      using e by simp
    also have "\<dots> = lower_char (take (length w) (z @ rest) ! length z)"
      unfolding lower_def using i l by (intro nth_map) simp
    also have "\<dots> = lower_char ((z @ rest) ! length z)"
      using i by (simp only: nth_take)
    also have "\<dots> = lower_char a"
      using r by simp
    also have "\<dots> = a"
      using rest(2) r lower_char_digit_space by simp
    finally have "w ! length z = a" .
    moreover have "w ! length z \<in> set w" using i by simp
    ultimately show False using w rest(2) r by auto
  qed
  with zn show ?thesis by simp
qed

lemma num_unit_straddle:
  assumes w: "w \<noteq> []" "\<forall>c\<in>set w. \<not> is_digit c \<and> \<not> is_space c"
    and x: "x \<noteq> []" "\<not> is_digit (last x)"
    and rest: "rest \<noteq> []" "is_digit (hd rest)"
  shows "num_unit_at k w (x @ rest) = num_unit_at k w x"
proof -
  have lx: "last x \<in> set x" using x by simp
  have tw: "takeWhile is_digit (x @ rest) = takeWhile is_digit x"
    using lx x(2) by (rule takeWhile_append1)
  have dw: "dropWhile is_digit (x @ rest) = dropWhile is_digit x @ rest"
    using lx x(2) by (rule dropWhile_append1)
  let ?y = "dropWhile is_digit x"
  have wd: "\<forall>c\<in>set w. \<not> is_digit c" using w(2) by simp
  have "(lit_ci w (dropWhile is_space (?y @ rest)) = None) =
        (lit_ci w (dropWhile is_space ?y) = None)"
  proof (cases "\<forall>c\<in>set ?y. is_space c")
    case True
    then have a: "dropWhile is_space ?y = []" by simp
    have "dropWhile is_space (?y @ rest) = dropWhile is_space rest"
      using True by (simp add: dropWhile_append2)
    also have "\<dots> = rest"
      using rest by (cases rest) (auto dest: digit_not_space)
    finally have b: "dropWhile is_space (?y @ rest) = rest" .
    have "lit_ci w rest = None" using lit_ci_stop [OF w rest(1)] rest(2) by simp
    moreover have "lit_ci w [] = None" using w(1) by (simp add: lit_ci_def)
    ultimately show ?thesis unfolding a b by simp
  next
    case False
    then obtain c where c: "c \<in> set ?y" "\<not> is_space c" by auto
    have "dropWhile is_space (?y @ rest) = dropWhile is_space ?y @ rest"
      using c by (rule dropWhile_append1)
    then show ?thesis
      using lit_ci_append_digit [OF wd rest, of "dropWhile is_space ?y"] by simp
  qed
  then show ?thesis
    by (simp add: num_unit_exact [OF w] tw dw)
qed

lemma unit_tail:
  assumes w: "w \<noteq> []" "\<forall>c\<in>set w. \<not> is_digit c \<and> \<not> is_space c"
    and ws: "\<forall>c\<in>set ws. is_space c"
    and u: "lower u = w"
  shows "takeWhile is_digit (ws @ u @ post) = []"
    and "dropWhile is_space (ws @ u @ post) = u @ post"
    and "lit_ci w (u @ post) = Some post"
proof -
  from u w(1) obtain a u' where ua: "u = a # u'"
    by (cases u) (auto simp: lower_def)
  have hw: "lower_char a \<in> set w" using u ua by (auto simp: lower_def)
  have na: "\<not> is_digit a \<and> \<not> is_space a"
  proof (rule ccontr)
    assume "\<not> (\<not> is_digit a \<and> \<not> is_space a)"
    then have d: "is_digit a \<or> is_space a" by blast
    then have "lower_char a = a" by (rule lower_char_digit_space)
    with hw w(2) d show False by auto
  qed
  show "takeWhile is_digit (ws @ u @ post) = []"
    using ws na ua by (cases ws) (auto dest: digit_not_space)
  show "dropWhile is_space (ws @ u @ post) = u @ post"
    using ws na ua by (simp add: dropWhile_append2)
  have "length w = length u" using u by (auto simp: lower_def)
  then show "lit_ci w (u @ post) = Some post"
    using u by (simp add: lit_ci_def)
qed

lemma num_unit_run:
  assumes w: "w \<noteq> []" "\<forall>c\<in>set w. \<not> is_digit c \<and> \<not> is_space c"
    and ws: "\<forall>c\<in>set ws. is_space c"
    and u: "lower u = w"
    and D: "\<forall>c\<in>set D. is_digit c"
  shows "num_unit_at k w (D @ ws @ u @ post) =
           (if 1 \<le> length D \<and> length D \<le> k then Some D else None)"
proof -
  have t: "takeWhile is_digit (D @ ws @ u @ post) = D"
    using D unit_tail(1) [OF w ws u, of post] by (simp add: takeWhile_append2)
  have "dropWhile is_digit (D @ ws @ u @ post) = dropWhile is_digit (ws @ u @ post)"
    using D by (simp add: dropWhile_append2)
  also have "\<dots> = ws @ u @ post"
    using unit_tail(1) [OF w ws u, of post] by (simp add: takeWhile_eq_Nil_iff dropWhile_eq_self_iff)
  finally have d: "dropWhile is_digit (D @ ws @ u @ post) = ws @ u @ post" .
  show ?thesis
    by (simp add: num_unit_exact [OF w] t d unit_tail(2,3) [OF w ws u])
qed

lemma re_search_first:
  assumes ign: "\<And>p x. m p x = g x"
    and none: "\<forall>n<length pre. g (drop n pre @ rest) = None"
    and hit: "g rest = Some r"
  shows "re_search m prev (pre @ rest) = Some r"
  using none
proof (induction pre arbitrary: prev)
  case Nil
  show ?case using hit ign by (cases rest) simp_all
next
  case (Cons c pre)
  have "g (c # pre @ rest) = None" using Cons.prems by force
  moreover have "\<forall>n<length pre. g (drop n pre @ rest) = None"
  proof (intro allI impI)
    fix n assume "n < length pre"
    then have "Suc n < length (c # pre)" by simp
    with Cons.prems have "g (drop (Suc n) (c # pre) @ rest) = None" by blast
    then show "g (drop n pre @ rest) = None" by simp
  qed
  ultimately show ?case using Cons.IH [of "Some c"] ign by simp
qed

lemma re_search_None_iff:
  assumes ign: "\<And>p x. m p x = g x"
  shows "(re_search m prev s = None) = (\<forall>n\<le>length s. g (drop n s) = None)"
proof (induction s arbitrary: prev)
  case Nil
  show ?case using ign by simp
next
  case (Cons c s)
  have "(\<forall>n\<le>length (c # s). g (drop n (c # s)) = None) =
        (g (c # s) = None \<and> (\<forall>n\<le>length s. g (drop n s) = None))"
  proof
    assume a: "\<forall>n\<le>length (c # s). g (drop n (c # s)) = None"
    have "g (c # s) = None" using a by force
    moreover have "\<forall>n\<le>length s. g (drop n s) = None"
    proof (intro allI impI)
      fix n assume "n \<le> length s"
      then have "Suc n \<le> length (c # s)" by simp
      with a have "g (drop (Suc n) (c # s)) = None" by blast
      then show "g (drop n s) = None" by simp
    qed
    ultimately show "g (c # s) = None \<and> (\<forall>n\<le>length s. g (drop n s) = None)" by simp
  next
    assume a: "g (c # s) = None \<and> (\<forall>n\<le>length s. g (drop n s) = None)"
    show "\<forall>n\<le>length (c # s). g (drop n (c # s)) = None"
    proof (intro allI impI)
      fix n assume n: "n \<le> length (c # s)"
      show "g (drop n (c # s)) = None"
        using a n by (cases n) simp_all
    qed
  qed
  then show ?case using Cons.IH [of "Some c"] ign by (simp split: option.splits)
qed

lemma num_search:
  assumes ign: "\<And>p x. m p x = num_unit_at k w x"
    and w: "w \<noteq> []" "\<forall>c\<in>set w. \<not> is_digit c \<and> \<not> is_space c"
    and k: "0 < k"
    and ds: "ds \<noteq> []" "\<forall>c\<in>set ds. is_digit c"
    and ws: "\<forall>c\<in>set ws. is_space c"
    and u: "lower u = w"
    and pre: "pre = [] \<or> \<not> is_digit (last pre)"
    and none: "re_search m None pre = None"
  shows "re_search m None (pre @ ds @ ws @ u @ post) = Some (drop (length ds - k) ds)"
proof -
  let ?h = "take (length ds - k) ds"
  let ?d = "drop (length ds - k) ds"
  let ?T = "ws @ u @ post"
  have split: "ds = ?h @ ?d" by simp
  have dd: "\<forall>c\<in>set ?d. is_digit c" using ds(2) by (auto dest: in_set_dropD)
  have ld: "1 \<le> length ?d \<and> length ?d \<le> k" using ds(1) k by (cases ds) auto
  have hit: "num_unit_at k w (?d @ ?T) = Some ?d"
    using num_unit_run [OF w ws u dd, of k post] ld by simp
  have pn: "\<forall>n\<le>length pre. num_unit_at k w (drop n pre) = None"
    using none re_search_None_iff [of m "num_unit_at k w" None pre] ign by simp
  have fail: "\<forall>n<length (pre @ ?h). num_unit_at k w (drop n (pre @ ?h) @ ?d @ ?T) = None"
  proof (intro allI impI)
    fix n assume n: "n < length (pre @ ?h)"
    show "num_unit_at k w (drop n (pre @ ?h) @ ?d @ ?T) = None"
    proof (cases "n < length pre")
      case True
      let ?x = "drop n pre"
      have x: "?x \<noteq> []" using True by simp
      have "pre \<noteq> []" using True by auto
      then have lp: "\<not> is_digit (last pre)" using pre by simp
      have "last ?x = last pre" using True by simp
      then have lx: "\<not> is_digit (last ?x)" using lp by simp
      have r: "ds @ ?T \<noteq> []" "is_digit (hd (ds @ ?T))"
        using ds by (cases ds; simp)+
      have "drop n (pre @ ?h) @ ?d @ ?T = ?x @ (ds @ ?T)"
        using True by simp
      then have "num_unit_at k w (drop n (pre @ ?h) @ ?d @ ?T) = num_unit_at k w (?x @ (ds @ ?T))"
        by (simp only:)
      also have "\<dots> = num_unit_at k w ?x"
        using num_unit_straddle [OF w x lx r] .
      also have "\<dots> = None" using pn True by simp
      finally show ?thesis .
    next
      case False
      let ?y = "drop (n - length pre) ?h"
      have e: "drop n (pre @ ?h) = ?y" using False by simp
      have yl: "0 < length ?y" using n False by simp
      then have big: "k < length ds" by simp
      then have "length ?d = k" by simp
      then have long: "\<not> (length (?y @ ?d) \<le> k)" using yl by simp
      have yd: "\<forall>c\<in>set (?y @ ?d). is_digit c"
        using ds(2) by (auto dest!: in_set_dropD in_set_takeD)
      have c: "\<not> (1 \<le> length (?y @ ?d) \<and> length (?y @ ?d) \<le> k)"
        using long by blast
      have "num_unit_at k w ((?y @ ?d) @ ?T) = None"
        by (simp only: num_unit_run [OF w ws u yd] if_not_P [OF c])
      then show ?thesis by (simp only: e append_assoc)
    qed
  qed
  have "re_search m None ((pre @ ?h) @ (?d @ ?T)) = Some ?d"
    using ign fail hit by (rule re_search_first)
  moreover have "(pre @ ?h) @ (?d @ ?T) = pre @ ds @ ws @ u @ post"
    by simp
  ultimately show ?thesis by (simp only:)
qed

section \<open>Durations\<close>

lemma min_word: "''min'' \<noteq> [] \<and> (\<forall>c\<in>set ''min''. \<not> is_digit c \<and> \<not> is_space c)"
  by (simp add: is_digit_def is_space_def)

lemma hora_word: "''hora'' \<noteq> [] \<and> (\<forall>c\<in>set ''hora''. \<not> is_digit c \<and> \<not> is_space c)"
  by (simp add: is_digit_def is_space_def)

lemma min_search:
  assumes "ds \<noteq> []" "\<forall>c\<in>set ds. is_digit c" "\<forall>c\<in>set ws. is_space c"
    and "lower u = ''min''" "pre = [] \<or> \<not> is_digit (last pre)"
    and "re_search min_at None pre = None"
  shows "re_search min_at None (pre @ ds @ ws @ u @ post) = Some (drop (length ds - 3) ds)"
proof -
  have ign: "\<And>p x. min_at p x = num_unit_at 3 ''min'' x" by (simp add: min_at_def)
  show ?thesis
    using ign conjunct1 [OF min_word] conjunct2 [OF min_word] _ assms
    by (rule num_search) simp
qed

lemma hr_search:
  assumes "ds \<noteq> []" "\<forall>c\<in>set ds. is_digit c" "\<forall>c\<in>set ws. is_space c"
    and "lower u = ''hora''" "pre = [] \<or> \<not> is_digit (last pre)"
    and "re_search hr_at None pre = None"
  shows "re_search hr_at None (pre @ ds @ ws @ u @ post) = Some (drop (length ds - 2) ds)"
proof -
  have ign: "\<And>p x. hr_at p x = num_unit_at 2 ''hora'' x" by (simp add: hr_at_def)
  show ?thesis
    using ign conjunct1 [OF hora_word] conjunct2 [OF hora_word] _ assms
    by (rule num_search) simp
qed

text \<open>
  Claim C3, as the code has it. Let the text be \<open>pre @ ds @ ws @ u @ post\<close> with \<open>ds\<close> a
  whole number (a non-empty run of digits, \<open>pre\<close> not ending in a digit), \<open>ws\<close>
  whitespace, possibly none, and \<open>u\<close> the unit word in any letter case. If \<open>u\<close> is
  \<open>min\<close>, the number has at most three digits and the minutes pattern matches nowhere
  in \<open>pre\<close>, the duration is that number, whatever hours the text also gives. If \<open>u\<close>
  is \<open>hora\<close>, the number has at most two digits, the hours pattern matches nowhere in
  \<open>pre\<close> and the minutes pattern matches nowhere in the text, the duration is 60 times
  that number.
\<close>

theorem duration_rules:
  assumes "ds \<noteq> []" and "\<forall>c\<in>set ds. is_digit c" and "\<forall>c\<in>set ws. is_space c"
    and "pre = [] \<or> \<not> is_digit (last pre)"
  shows "(lower u = ''min'' \<and> length ds \<le> 3 \<and> re_search min_at None pre = None \<longrightarrow>
            duration_min (parse_event_from_text dp (pre @ ds @ ws @ u @ post)) =
              Some (int (py_int ds))) \<and>
         (lower u = ''hora'' \<and> length ds \<le> 2 \<and> re_search hr_at None pre = None \<and>
          re_search min_at None (pre @ ds @ ws @ u @ post) = None \<longrightarrow>
            duration_min (parse_event_from_text dp (pre @ ds @ ws @ u @ post)) =
              Some (int (py_int ds) * 60))"
proof (intro conjI impI)
  assume a: "lower u = ''min'' \<and> length ds \<le> 3 \<and> re_search min_at None pre = None"
  then have u: "lower u = ''min''" and l: "length ds \<le> 3"
    and n: "re_search min_at None pre = None"
    by blast+
  have "re_search min_at None (pre @ ds @ ws @ u @ post) = Some (drop (length ds - 3) ds)"
    using assms(1-3) u assms(4) n by (rule min_search)
  then have "re_search min_at None (pre @ ds @ ws @ u @ post) = Some ds"
    using l by simp
  then show "duration_min (parse_event_from_text dp (pre @ ds @ ws @ u @ post)) =
               Some (int (py_int ds))"
    by (simp only: parse_duration option.case)
next
  assume a: "lower u = ''hora'' \<and> length ds \<le> 2 \<and> re_search hr_at None pre = None \<and>
             re_search min_at None (pre @ ds @ ws @ u @ post) = None"
  then have u: "lower u = ''hora''" and l: "length ds \<le> 2"
    and n: "re_search hr_at None pre = None"
    and m: "re_search min_at None (pre @ ds @ ws @ u @ post) = None"
    by blast+
  have "re_search hr_at None (pre @ ds @ ws @ u @ post) = Some (drop (length ds - 2) ds)"
    using assms(1-3) u assms(4) n by (rule hr_search)
  then have "re_search hr_at None (pre @ ds @ ws @ u @ post) = Some ds"
    using l by simp
  with m show "duration_min (parse_event_from_text dp (pre @ ds @ ws @ u @ post)) =
               Some (int (py_int ds) * 60)"
    by (simp only: parse_duration option.case)
qed

text \<open>
  Claim C3 as stated fails for a number longer than the pattern allows: \<open>1500 min\<close>
  gives 500 and \<open>120 horas\<close> gives 1200.
\<close>

theorem duration_rules_counterexample:
  "duration_min (parse_event_from_text no_resolver ''1500 min'') = Some 500 \<and>
   duration_min (parse_event_from_text no_resolver ''120 horas'') = Some 1200"
  by code_simp

theorem duration_rules_witness:
  "duration_min (parse_event_from_text no_resolver ''30 min y luego 2 horas'') = Some 30 \<and>
   duration_min (parse_event_from_text no_resolver ''2 horas y 30 Min'') = Some 30 \<and>
   duration_min (parse_event_from_text no_resolver ''reunion de 2 horas'') = Some 120"
proof -
  have d: "\<forall>c\<in>set ''30''. is_digit c" "\<forall>c\<in>set ''2''. is_digit c"
    by (simp_all add: is_digit_def)
  have s: "\<forall>c\<in>set '' ''. is_space c" by (simp add: is_space_def)
  have l: "lower ''min'' = ''min''" "lower ''Min'' = ''min''" "lower ''hora'' = ''hora''"
    by code_simp+
  have p: "\<not> is_digit (last ''2 horas y '')" "\<not> is_digit (last ''reunion de '')"
    by code_simp+
  have n: "re_search min_at None [] = None" "re_search min_at None ''2 horas y '' = None"
    "re_search hr_at None ''reunion de '' = None"
    "re_search min_at None ''reunion de 2 horas'' = None"
    by code_simp+
  have v: "int (py_int ''30'') = 30" "int (py_int ''2'') * 60 = 120"
    by code_simp+
  have "duration_min (parse_event_from_text no_resolver ''30 min y luego 2 horas'') = Some 30"
    using duration_rules [of "''30''" "'' ''" "[]" "''min''" no_resolver "'' y luego 2 horas''"]
      d s l n v by simp
  moreover have "duration_min (parse_event_from_text no_resolver ''2 horas y 30 Min'') = Some 30"
    using duration_rules [of "''30''" "'' ''" "''2 horas y ''" "''Min''" no_resolver "[]"]
      d s l p n v by simp
  moreover have "duration_min (parse_event_from_text no_resolver ''reunion de 2 horas'') = Some 120"
    using duration_rules [of "''2''" "'' ''" "''reunion de ''" "''hora''" no_resolver "''s''"]
      d s l p n v by simp
  ultimately show ?thesis by blast
qed

section \<open>Titles\<close>










end
